theory Spec2Isabelle
  imports Complex_Main "HOL-Library.AList" "HOL-Library.Sublist"
begin

section \<open>The legacy fake-timer scheduler (class \<open>FakeTimers\<close>)\<close>

text \<open>
  The class keeps a virtual clock and three containers of pending work: a \<open>Map\<close> of timers
  keyed by \<open>String(uuid)\<close>, an array of immediates and an array of ticks. Its methods are
  embedded as functions on a record of the instance fields.

  \<^item> Map keys are \<open>String(n)\<close> for integer \<open>n\<close>; that conversion is injective, so a key is
    modelled by the integer itself. A JavaScript \<open>Map\<close> iterates in insertion order and
    \<open>set\<close> on a present key keeps its position: the map is an association list handled with
    \<open>AList.update\<close>, \<open>AList.delete\<close> and \<open>map_of\<close>.
  \<^item> Virtual time is an \<open>int\<close>: millisecond amounts are taken to be integer-valued doubles
    of magnitude below \<open>2^53\<close>, on which double arithmetic is exact. The one place where the
    source coerces an arbitrary value to an integer (\<open>Number(delay) | 0\<close>) is modelled on
    the mathematical value of the double.
  \<^item> A user callback is a name (\<open>Callback\<close>); a program \<open>p\<close> gives each name the list
    of calls to the fake primitives that the callback makes when it is invoked (or a
    throw), the same list at every invocation. A callback may name itself, which is how a
    callback that re-registers itself is written. Callbacks that call the drain methods
    re-entrantly, and callbacks whose calls differ from one invocation to the next, are
    outside this model.
  \<^item> An exception leaves the mutations made so far in place, so every operation returns the
    state together with an optional error.
  \<^item> The fields \<open>history\<close>, \<open>warnings\<close>, \<open>mocksCreated\<close> and \<open>hostQueue\<close> are
    observations, not fields of the class: \<open>history\<close> gets one entry at each place where
    the source invokes a stored callback (what a test reads from its mock callbacks),
    \<open>warnings\<close> counts calls of \<open>console.warn\<close>, \<open>mocksCreated\<close> tells the mock
    functions of successive \<open>_createMocks\<close> calls apart, and \<open>hostQueue\<close> lists the
    closures handed to the host's real \<open>nextTick\<close> and \<open>setImmediate\<close>. The host runs those
    closures only after the synchronous call being modelled has returned.
\<close>

subsection \<open>Data model\<close>

type_synonym TimerID = int
type_synonym Callback = nat

record Tick =
  uuid :: TimerID
  tick_callback :: Callback

record Timer =
  timer_type :: string
  callback :: Callback
  expiry :: int
  interval :: "int option"

text \<open>A host function value: one of the host's own, or a mock made by \<open>_createMocks\<close>.\<close>

datatype fn = HostFn nat | MockFn nat string

text \<open>
  \<open>TimerAPI\<close> has one slot per primitive; \<open>None\<close> is \<open>undefined\<close>. The same record
  stands for the part of the host's global object the class reads and writes, with
  \<open>nextTick\<close> for \<open>global.process.nextTick\<close>; the host is taken to have a \<open>process\<close>
  object, whose \<open>nextTick\<close> may be missing.
\<close>

record TimerAPI =
  cancelAnimationFrame :: "fn option"
  clearImmediate :: "fn option"
  clearInterval :: "fn option"
  clearTimeout :: "fn option"
  nextTick :: "fn option"
  requestAnimationFrame :: "fn option"
  setImmediate :: "fn option"
  setInterval :: "fn option"
  setTimeout :: "fn option"

record 'r TimerConfig =
  idToRef :: "int \<Rightarrow> 'r"
  refToId :: "'r \<Rightarrow> int option"

definition MS_IN_A_YEAR :: int where
  "MS_IN_A_YEAR = 31536000000"

text \<open>
  The errors the class raises: the drain of ticks, immediates or timers that reaches
  \<open>maxLoops\<close> iterations (\<open>'Ran ' + maxLoops + ' ticks, and there are still more! ...'\<close>
  and likewise for immediates and timers), the unexpected timer type, whatever a user
  callback throws, and the \<open>TypeError\<close> of the language itself: calling a host primitive
  that is \<open>undefined\<close>, or converting a Symbol to a number.
\<close>

datatype error =
    TooManyTicks nat
  | TooManyImmediates nat
  | TooManyTimers nat
  | UnexpectedTimerType string
  | Thrown nat
  | TypeError

text \<open>
  The entries of the history: a tick or an immediate ran (with its uuid), or a timer
  fired: its handle, the expiry it had when \<open>_runTimerHandle\<close> looked it up, and
  virtual-now at that moment.
\<close>

datatype event =
    TickRan TimerID
  | ImmediateRan TimerID
  | TimerFired TimerID int int

datatype host_task = RealTick TimerID | RealImmediate TimerID

record 'r FakeTimers =
  cancelledTicks :: "TimerID set"
  disposed :: bool
  fakeTimerAPIs :: "TimerAPI option"
  global :: TimerAPI
  immediates :: "Tick list"
  maxLoops :: nat
  now :: int
  ticks :: "Tick list"
  timerAPIs :: TimerAPI
  timers :: "(TimerID \<times> Timer) list"
  uuidCounter :: int
  timerConfig :: "'r TimerConfig"
  history :: "event list"
  warnings :: nat
  mocksCreated :: nat
  hostQueue :: "host_task list"

subsection \<open>JavaScript numbers and the coercion \<open>Number(delay) | 0\<close>\<close>

text \<open>
  A double is a rational, an infinity or NaN. The delay handed to \<open>setTimeout\<close> can be
  any value, and \<open>Number(delay)\<close> is the language's conversion: \<open>undefined\<close> gives NaN,
  \<open>null\<close> gives 0, \<open>true\<close> and \<open>false\<close> give 1 and 0, a number is itself, and a
  Symbol raises a \<open>TypeError\<close>. What the conversion makes of a string (\<open>'10'\<close> gives 10,
  \<open>'abc'\<close> gives NaN) or of an object (the array \<open>[7]\<close> gives 7) is decided by the
  language's parser and by the object's own methods, which are no part of the class: a
  string and an object are given by the number they convert to. Objects whose conversion
  runs code with effects on the scheduler are not modelled.
\<close>

datatype jsnumber = Finite rat | NaN | PosInfinity | NegInfinity

datatype jsvalue =
    JUndefined
  | JNull
  | JBool bool
  | JNumber jsnumber
  | JString jsnumber
  | JObject jsnumber
  | JSymbol

definition toNumber :: "jsvalue \<Rightarrow> error + jsnumber" where
  "toNumber v = (case v of
      JUndefined \<Rightarrow> Inr NaN
    | JNull \<Rightarrow> Inr (Finite 0)
    | JBool b \<Rightarrow> Inr (Finite (if b then 1 else 0))
    | JNumber n \<Rightarrow> Inr n
    | JString n \<Rightarrow> Inr n
    | JObject n \<Rightarrow> Inr n
    | JSymbol \<Rightarrow> Inl TypeError)"

text \<open>
  \<open>x | 0\<close> is \<open>ToInt32\<close>: NaN and the infinities give 0; a finite value is truncated
  toward zero (\<open>trunc\<close>), reduced modulo \<open>2^32\<close> and read as a signed 32-bit integer.
\<close>

definition trunc :: "rat \<Rightarrow> int" where
  "trunc q = (if q < 0 then \<lceil>q\<rceil> else \<lfloor>q\<rfloor>)"

definition toInt32 :: "jsnumber \<Rightarrow> int" where
  "toInt32 x = (case x of
      Finite q \<Rightarrow>
        (let m = trunc q mod 4294967296
         in if 2147483648 \<le> m then m - 4294967296 else m)
    | NaN \<Rightarrow> 0
    | PosInfinity \<Rightarrow> 0
    | NegInfinity \<Rightarrow> 0)"

subsection \<open>Calls a callback can make\<close>

datatype 'r cmd =
    SetTimeout Callback jsvalue
  | SetInterval Callback "int option"
  | SetImmediate Callback
  | NextTick Callback
  | RequestAnimationFrame Callback
  | ClearTimer 'r
  | ClearImmediate TimerID
  | Throw nat

type_synonym 'r program = "Callback \<Rightarrow> 'r cmd list"

subsection \<open>Lifecycle\<close>

definition clearAllTimers :: "'r FakeTimers \<Rightarrow> 'r FakeTimers" where
  "clearAllTimers s = s\<lparr>immediates := [], timers := []\<rparr>"

definition dispose :: "'r FakeTimers \<Rightarrow> 'r FakeTimers" where
  "dispose s = clearAllTimers (s\<lparr>disposed := True\<rparr>)"

definition reset :: "'r FakeTimers \<Rightarrow> 'r FakeTimers" where
  "reset s = s\<lparr>cancelledTicks := {}, now := 0, ticks := [], immediates := [], timers := []\<rparr>"

text \<open>The constructor: \<open>maxLoops || 100000\<close> replaces an absent or zero bound.\<close>

definition FakeTimers_new :: "TimerAPI \<Rightarrow> 'r TimerConfig \<Rightarrow> nat option \<Rightarrow> 'r FakeTimers" where
  "FakeTimers_new g cfg ml = reset
     \<lparr> cancelledTicks = {}, disposed = False, fakeTimerAPIs = None, global = g,
       immediates = [],
       maxLoops = (case ml of None \<Rightarrow> 100000 | Some n \<Rightarrow> if n = 0 then 100000 else n),
       now = 0, ticks = [], timerAPIs = g, timers = [], uuidCounter = 1,
       timerConfig = cfg, history = [], warnings = 0, mocksCreated = 0, hostQueue = [] \<rparr>"

subsection \<open>The fake primitives\<close>

text \<open>
  \<open>_fakeClearTimer\<close> deletes only under \<open>if (uuid)\<close>: an id that is \<open>undefined\<close>
  or 0 is falsy and nothing is deleted.
\<close>

definition fakeClearTimer :: "'r \<Rightarrow> 'r FakeTimers \<Rightarrow> 'r FakeTimers" where
  "fakeClearTimer timerRef s =
     (case refToId (timerConfig s) timerRef of
        None \<Rightarrow> s
      | Some u \<Rightarrow> if u \<noteq> 0 then s\<lparr>timers := AList.delete u (timers s)\<rparr> else s)"

definition fakeClearImmediate :: "TimerID \<Rightarrow> 'r FakeTimers \<Rightarrow> 'r FakeTimers" where
  "fakeClearImmediate u s = s\<lparr>immediates := filter (\<lambda>i. uuid i \<noteq> u) (immediates s)\<rparr>"

text \<open>
  A fake that returns a value returns it as \<open>Inr\<close>, and \<open>Inl\<close> is the error it raises.
  The fake \<open>nextTick\<close> and \<open>setImmediate\<close> first queue their record and then call the
  host's original primitive with a closure, which is recorded in \<open>hostQueue\<close>. Where the
  host had no such primitive when the class was constructed, that call raises a
  \<open>TypeError\<close>, after the record has been queued. A disposed scheduler returns before
  anything is touched.
\<close>

definition fakeNextTick :: "Callback \<Rightarrow> 'r FakeTimers \<Rightarrow> error option \<times> 'r FakeTimers" where
  "fakeNextTick cb s =
     (if disposed s then (None, s)
      else
        (let s1 = s\<lparr>uuidCounter := uuidCounter s + 1,
                    ticks := ticks s @ [\<lparr>uuid = uuidCounter s, tick_callback = cb\<rparr>]\<rparr>
         in if nextTick (timerAPIs s) = None then (Some TypeError, s1)
            else (None, s1\<lparr>hostQueue := hostQueue s @ [RealTick (uuidCounter s)]\<rparr>)))"

definition fakeSetImmediate ::
  "Callback \<Rightarrow> 'r FakeTimers \<Rightarrow> (error + TimerID option) \<times> 'r FakeTimers" where
  "fakeSetImmediate cb s =
     (if disposed s then (Inr None, s)
      else
        (let s1 = s\<lparr>uuidCounter := uuidCounter s + 1,
                    immediates := immediates s @ [\<lparr>uuid = uuidCounter s, tick_callback = cb\<rparr>]\<rparr>
         in if setImmediate (timerAPIs s) = None then (Inl TypeError, s1)
            else (Inr (Some (uuidCounter s)),
                  s1\<lparr>hostQueue := hostQueue s @ [RealImmediate (uuidCounter s)]\<rparr>)))"

text \<open>
  The fake \<open>setInterval\<close> uses its delay as given, 0 when it is absent or null; the fake
  \<open>setTimeout\<close> coerces it with \<open>Number(delay) | 0\<close>, after the disposed check and
  before the uuid counter is read, so a failing conversion leaves the state as it was;
  the fake \<open>requestAnimationFrame\<close> is the fake \<open>setTimeout\<close> with the delay
  \<open>1000 / 60\<close>.
\<close>

definition fakeSetInterval ::
  "Callback \<Rightarrow> int option \<Rightarrow> 'r FakeTimers \<Rightarrow> 'r option \<times> 'r FakeTimers" where
  "fakeSetInterval cb intervalDelay s =
     (if disposed s then (None, s)
      else
        (let d = (case intervalDelay of None \<Rightarrow> 0 | Some n \<Rightarrow> n);
             u = uuidCounter s
         in (Some (idToRef (timerConfig s) u),
             s\<lparr>uuidCounter := u + 1,
               timers := AList.update u
                 \<lparr>timer_type = ''interval'', callback = cb, expiry = now s + d,
                  interval = Some d\<rparr> (timers s)\<rparr>)))"

definition fakeSetTimeout ::
  "Callback \<Rightarrow> jsvalue \<Rightarrow> 'r FakeTimers \<Rightarrow> (error + 'r option) \<times> 'r FakeTimers" where
  "fakeSetTimeout cb delay s =
     (if disposed s then (Inr None, s)
      else
        (case toNumber delay of
           Inl e \<Rightarrow> (Inl e, s)
         | Inr x \<Rightarrow>
             (let d = toInt32 x;
                  u = uuidCounter s
              in (Inr (Some (idToRef (timerConfig s) u)),
                  s\<lparr>uuidCounter := u + 1,
                    timers := AList.update u
                      \<lparr>timer_type = ''timeout'', callback = cb, expiry = now s + d,
                       interval = None\<rparr> (timers s)\<rparr>))))"

definition fakeRequestAnimationFrame ::
  "Callback \<Rightarrow> 'r FakeTimers \<Rightarrow> (error + 'r option) \<times> 'r FakeTimers" where
  "fakeRequestAnimationFrame cb s = fakeSetTimeout cb (JNumber (Finite (1000 / 60))) s"

subsection \<open>Invoking a callback\<close>

text \<open>
  A callback makes its calls one after the other and does not use what they return; the
  first call that raises ends it, as a \<open>throw\<close> does.
\<close>

definition discard :: "(error + 'a) \<times> 's \<Rightarrow> error option \<times> 's" where
  "discard r = (case r of (Inl e, s) \<Rightarrow> (Some e, s) | (Inr v, s) \<Rightarrow> (None, s))"

fun exec_cmd :: "'r cmd \<Rightarrow> 'r FakeTimers \<Rightarrow> error option \<times> 'r FakeTimers" where
  "exec_cmd (SetTimeout cb d) s = discard (fakeSetTimeout cb d s)"
| "exec_cmd (SetInterval cb d) s = (None, snd (fakeSetInterval cb d s))"
| "exec_cmd (SetImmediate cb) s = discard (fakeSetImmediate cb s)"
| "exec_cmd (NextTick cb) s = fakeNextTick cb s"
| "exec_cmd (RequestAnimationFrame cb) s = discard (fakeRequestAnimationFrame cb s)"
| "exec_cmd (ClearTimer r) s = (None, fakeClearTimer r s)"
| "exec_cmd (ClearImmediate u) s = (None, fakeClearImmediate u s)"
| "exec_cmd (Throw n) s = (Some (Thrown n), s)"

fun exec_cmds :: "'r cmd list \<Rightarrow> 'r FakeTimers \<Rightarrow> error option \<times> 'r FakeTimers" where
  "exec_cmds [] s = (None, s)"
| "exec_cmds (c # cs) s =
     (case exec_cmd c s of
        (Some e, s') \<Rightarrow> (Some e, s')
      | (None, s') \<Rightarrow> exec_cmds cs s')"

definition invoke :: "'r program \<Rightarrow> Callback \<Rightarrow> 'r FakeTimers \<Rightarrow> error option \<times> 'r FakeTimers" where
  "invoke p cb s = exec_cmds (p cb) s"

text \<open>Sequencing of two steps, the second skipped when the first raised.\<close>

definition and_then ::
  "error option \<times> 's \<Rightarrow> ('s \<Rightarrow> error option \<times> 's) \<Rightarrow> error option \<times> 's" where
  "and_then r f = (case r of (None, s) \<Rightarrow> f s | (Some e, s) \<Rightarrow> (Some e, s))"

text \<open>\<open>Array.prototype.forEach\<close> over the elements the array had when the call began.\<close>

fun forEach :: "('a \<Rightarrow> 's \<Rightarrow> error option \<times> 's) \<Rightarrow> 'a list \<Rightarrow> 's \<Rightarrow> error option \<times> 's" where
  "forEach f [] s = (None, s)"
| "forEach f (x # xs) s =
     (case f x s of
        (Some e, s') \<Rightarrow> (Some e, s')
      | (None, s') \<Rightarrow> forEach f xs s')"

subsection \<open>Drains\<close>

definition checkFakeTimers :: "'r FakeTimers \<Rightarrow> 'r FakeTimers" where
  "checkFakeTimers s =
     (if setTimeout (global s) \<noteq>
         (case fakeTimerAPIs s of None \<Rightarrow> None | Some api \<Rightarrow> setTimeout api)
      then s\<lparr>warnings := warnings s + 1\<rparr> else s)"

text \<open>
  A drain loop \<open>for (i = 0; i < maxLoops; i++)\<close> is a recursion on the number of
  iterations left. It ends by \<open>break\<close>, by an exception, or with \<open>i === maxLoops\<close>.
\<close>

datatype loop_exit = Break | Exhausted | Raised error

fun runAllTicks_loop :: "'r program \<Rightarrow> nat \<Rightarrow> 'r FakeTimers \<Rightarrow> loop_exit \<times> 'r FakeTimers" where
  "runAllTicks_loop p 0 s = (Exhausted, s)"
| "runAllTicks_loop p (Suc n) s =
     (case ticks s of
        [] \<Rightarrow> (Break, s)
      | tick # rest \<Rightarrow>
          (let s1 = s\<lparr>ticks := rest\<rparr> in
           if uuid tick \<in> cancelledTicks s1 then runAllTicks_loop p n s1
           else
             (case invoke p (tick_callback tick)
                     (s1\<lparr>cancelledTicks := insert (uuid tick) (cancelledTicks s1),
                         history := history s1 @ [TickRan (uuid tick)]\<rparr>) of
                (Some e, s2) \<Rightarrow> (Raised e, s2)
              | (None, s2) \<Rightarrow> runAllTicks_loop p n s2)))"

definition runAllTicks :: "'r program \<Rightarrow> 'r FakeTimers \<Rightarrow> error option \<times> 'r FakeTimers" where
  "runAllTicks p s =
     (let s0 = checkFakeTimers s in
      case runAllTicks_loop p (maxLoops s0) s0 of
        (Break, s') \<Rightarrow> (None, s')
      | (Exhausted, s') \<Rightarrow> (Some (TooManyTicks (maxLoops s')), s')
      | (Raised e, s') \<Rightarrow> (Some e, s'))"

text \<open>
  \<open>_runImmediate\<close>: the callback runs in a \<open>try\<close> whose \<open>finally\<close> removes the
  immediate, so the removal happens whether or not the callback throws.
\<close>

definition runImmediate :: "'r program \<Rightarrow> Tick \<Rightarrow> 'r FakeTimers \<Rightarrow> error option \<times> 'r FakeTimers" where
  "runImmediate p immediate s =
     (case invoke p (tick_callback immediate)
             (s\<lparr>history := history s @ [ImmediateRan (uuid immediate)]\<rparr>) of
        (r, s') \<Rightarrow> (r, fakeClearImmediate (uuid immediate) s'))"

fun runAllImmediates_loop ::
  "'r program \<Rightarrow> nat \<Rightarrow> 'r FakeTimers \<Rightarrow> loop_exit \<times> 'r FakeTimers" where
  "runAllImmediates_loop p 0 s = (Exhausted, s)"
| "runAllImmediates_loop p (Suc n) s =
     (case immediates s of
        [] \<Rightarrow> (Break, s)
      | immediate # rest \<Rightarrow>
          (case runImmediate p immediate (s\<lparr>immediates := rest\<rparr>) of
             (Some e, s2) \<Rightarrow> (Raised e, s2)
           | (None, s2) \<Rightarrow> runAllImmediates_loop p n s2))"

definition runAllImmediates :: "'r program \<Rightarrow> 'r FakeTimers \<Rightarrow> error option \<times> 'r FakeTimers" where
  "runAllImmediates p s =
     (let s0 = checkFakeTimers s in
      case runAllImmediates_loop p (maxLoops s0) s0 of
        (Break, s') \<Rightarrow> (None, s')
      | (Exhausted, s') \<Rightarrow> (Some (TooManyImmediates (maxLoops s')), s')
      | (Raised e, s') \<Rightarrow> (Some e, s'))"

text \<open>
  \<open>_getNextTimerHandle\<close>: one pass over the map in insertion order, keeping the handle
  of the first timer whose expiry is below everything seen so far, starting from
  \<open>MS_IN_A_YEAR\<close>.
\<close>

definition next_step :: "TimerID option \<times> int \<Rightarrow> TimerID \<times> Timer \<Rightarrow> TimerID option \<times> int" where
  "next_step acc e =
     (if expiry (snd e) < snd acc then (Some (fst e), expiry (snd e)) else acc)"

definition getNextTimerHandle :: "'r FakeTimers \<Rightarrow> TimerID option" where
  "getNextTimerHandle s = fst (foldl next_step (None, MS_IN_A_YEAR) (timers s))"

text \<open>
  \<open>_runTimerHandle\<close>: a handle that is not in the map does nothing; a timeout is deleted
  and then invoked; an interval gets the expiry \<open>now + (interval || 0)\<close> and is then
  invoked; any other type raises.
\<close>

definition runTimerHandle ::
  "'r program \<Rightarrow> TimerID \<Rightarrow> 'r FakeTimers \<Rightarrow> error option \<times> 'r FakeTimers" where
  "runTimerHandle p timerHandle s =
     (case map_of (timers s) timerHandle of
        None \<Rightarrow> (None, s)
      | Some timer \<Rightarrow>
          if timer_type timer = ''timeout'' then
            invoke p (callback timer)
              (s\<lparr>timers := AList.delete timerHandle (timers s),
                 history := history s @ [TimerFired timerHandle (expiry timer) (now s)]\<rparr>)
          else if timer_type timer = ''interval'' then
            invoke p (callback timer)
              (s\<lparr>timers := AList.update timerHandle
                    (timer\<lparr>expiry := now s +
                       (case interval timer of None \<Rightarrow> 0 | Some i \<Rightarrow> i)\<rparr>) (timers s),
                 history := history s @ [TimerFired timerHandle (expiry timer) (now s)]\<rparr>)
          else (Some (UnexpectedTimerType (timer_type timer)), s))"

fun runAllTimers_loop :: "'r program \<Rightarrow> nat \<Rightarrow> 'r FakeTimers \<Rightarrow> loop_exit \<times> 'r FakeTimers" where
  "runAllTimers_loop p 0 s = (Exhausted, s)"
| "runAllTimers_loop p (Suc n) s =
     (case getNextTimerHandle s of
        None \<Rightarrow> (Break, s)
      | Some nextTimerHandle \<Rightarrow>
          (case and_then
                  (and_then (runTimerHandle p nextTimerHandle s)
                     (\<lambda>s1. if immediates s1 \<noteq> [] then runAllImmediates p s1 else (None, s1)))
                  (\<lambda>s2. if ticks s2 \<noteq> [] then runAllTicks p s2 else (None, s2)) of
             (Some e, s3) \<Rightarrow> (Raised e, s3)
           | (None, s3) \<Rightarrow> runAllTimers_loop p n s3))"

definition runAllTimers :: "'r program \<Rightarrow> 'r FakeTimers \<Rightarrow> error option \<times> 'r FakeTimers" where
  "runAllTimers p s =
     and_then (and_then (runAllTicks p (checkFakeTimers s)) (runAllImmediates p))
       (\<lambda>s0. case runAllTimers_loop p (maxLoops s0) s0 of
          (Break, s') \<Rightarrow> (None, s')
        | (Exhausted, s') \<Rightarrow> (Some (TooManyTimers (maxLoops s')), s')
        | (Raised e, s') \<Rightarrow> (Some e, s'))"

text \<open>
  \<open>runOnlyPendingTimers\<close> copies the entries of the map first. The timer objects in the
  copy are shared with the map, and \<open>sort\<close> reads their expiry after the immediates have
  run; only \<open>_runTimerHandle\<close> writes an expiry, and it does not run before the sort, so
  the keys of the sort are the expiries of the copy. \<open>Array.prototype.sort\<close> is stable
  (since ECMAScript 2019), as \<open>sort_key\<close> is. \<open>forEach\<close> walks the immediates array as it was when the call
  began: \<open>_fakeClearImmediate\<close> replaces the array and does not shrink the one walked.
\<close>

definition runOnlyPendingTimers ::
  "'r program \<Rightarrow> 'r FakeTimers \<Rightarrow> error option \<times> 'r FakeTimers" where
  "runOnlyPendingTimers p s =
     (let timerEntries = timers s;
          s0 = checkFakeTimers s
      in and_then (forEach (runImmediate p) (immediates s0) s0)
           (forEach (\<lambda>e. runTimerHandle p (fst e)) (sort_key (\<lambda>e. expiry (snd e)) timerEntries)))"

fun advanceTimersByTime_loop ::
  "'r program \<Rightarrow> nat \<Rightarrow> int \<Rightarrow> 'r FakeTimers \<Rightarrow> loop_exit \<times> 'r FakeTimers" where
  "advanceTimersByTime_loop p 0 msToRun s = (Exhausted, s)"
| "advanceTimersByTime_loop p (Suc n) msToRun s =
     (case getNextTimerHandle s of
        None \<Rightarrow> (Break, s)
      | Some timerHandle \<Rightarrow>
          (case map_of (timers s) timerHandle of
             None \<Rightarrow> (Break, s)
           | Some timerValue \<Rightarrow>
               (let nextTimerExpiry = expiry timerValue in
                if now s + msToRun < nextTimerExpiry then (Break, s\<lparr>now := now s + msToRun\<rparr>)
                else
                  (case runTimerHandle p timerHandle (s\<lparr>now := nextTimerExpiry\<rparr>) of
                     (Some e, s') \<Rightarrow> (Raised e, s')
                   | (None, s') \<Rightarrow>
                       advanceTimersByTime_loop p n (msToRun - (nextTimerExpiry - now s)) s'))))"

definition advanceTimersByTime ::
  "'r program \<Rightarrow> int \<Rightarrow> 'r FakeTimers \<Rightarrow> error option \<times> 'r FakeTimers" where
  "advanceTimersByTime p msToRun s =
     (let s0 = checkFakeTimers s in
      case advanceTimersByTime_loop p (maxLoops s0) msToRun s0 of
        (Break, s') \<Rightarrow> (None, s')
      | (Exhausted, s') \<Rightarrow> (Some (TooManyTimers (maxLoops s')), s')
      | (Raised e, s') \<Rightarrow> (Some e, s'))"

definition min_expiry :: "int option \<Rightarrow> TimerID \<times> Timer \<Rightarrow> int option" where
  "min_expiry minExpiry e =
     (case minExpiry of
        None \<Rightarrow> Some (expiry (snd e))
      | Some m \<Rightarrow> if expiry (snd e) < m then Some (expiry (snd e)) else Some m)"

function advanceTimersToNextTimer ::
  "'r program \<Rightarrow> int \<Rightarrow> 'r FakeTimers \<Rightarrow> error option \<times> 'r FakeTimers" where
  "advanceTimersToNextTimer p steps s =
     (if steps < 1 then (None, s)
      else
        (case foldl min_expiry None (timers s) of
           None \<Rightarrow> (None, s)
         | Some nextExpiry \<Rightarrow>
             (case advanceTimersByTime p (nextExpiry - now s) s of
                (Some e, s') \<Rightarrow> (Some e, s')
              | (None, s') \<Rightarrow> advanceTimersToNextTimer p (steps - 1) s')))"
  by pat_completeness auto
termination
  by (relation "measure (\<lambda>(p, steps, s). nat steps)") auto

definition getTimerCount :: "'r FakeTimers \<Rightarrow> nat \<times> 'r FakeTimers" where
  "getTimerCount s =
     (length (timers s) + length (immediates s) + length (ticks s), checkFakeTimers s)"

subsection \<open>Installing and removing the fakes\<close>

text \<open>
  Modelled from the spec: the mock factory \<open>moduleMocker.fn().mockImplementation\<close>
  (package \<open>jest-mock\<close>) is not among the sources. The spec describes it as a factory
  that returns a wrapped callable forwarding to the implementation, so each call of
  \<open>_createMocks\<close> yields nine new function values, told apart by the number of the call.
\<close>

definition createMocks :: "'r FakeTimers \<Rightarrow> 'r FakeTimers" where
  "createMocks s =
     (let g = mocksCreated s in
      s\<lparr>mocksCreated := g + 1,
        fakeTimerAPIs := Some
          \<lparr> cancelAnimationFrame = Some (MockFn g ''cancelAnimationFrame''),
            clearImmediate = Some (MockFn g ''clearImmediate''),
            clearInterval = Some (MockFn g ''clearInterval''),
            clearTimeout = Some (MockFn g ''clearTimeout''),
            nextTick = Some (MockFn g ''nextTick''),
            requestAnimationFrame = Some (MockFn g ''requestAnimationFrame''),
            setImmediate = Some (MockFn g ''setImmediate''),
            setInterval = Some (MockFn g ''setInterval''),
            setTimeout = Some (MockFn g ''setTimeout'') \<rparr>\<rparr>)"

text \<open>
  Modelled from the spec: \<open>setGlobal\<close> (package \<open>jest-util\<close>) is not among the sources.
  The spec says that the installer writes the primitive into the host globals, so
  \<open>setGlobal(global, name, value)\<close> is the assignment of one property, a record update.
  \<open>install api g\<close> writes the primitives of \<open>api\<close> into the globals \<open>g\<close>, in the
  order of \<open>useRealTimers\<close> and \<open>useFakeTimers\<close>: the animation-frame and immediate
  families only where the host has a function under that name.
\<close>

definition install :: "TimerAPI \<Rightarrow> TimerAPI \<Rightarrow> TimerAPI" where
  "install api g =
     (let g1 = (if cancelAnimationFrame g \<noteq> None
                then g\<lparr>cancelAnimationFrame := cancelAnimationFrame api\<rparr> else g);
          g2 = (if clearImmediate g1 \<noteq> None
                then g1\<lparr>clearImmediate := clearImmediate api\<rparr> else g1);
          g3 = g2\<lparr>clearInterval := clearInterval api\<rparr>;
          g4 = g3\<lparr>clearTimeout := clearTimeout api\<rparr>;
          g5 = (if requestAnimationFrame g4 \<noteq> None
                then g4\<lparr>requestAnimationFrame := requestAnimationFrame api\<rparr> else g4);
          g6 = (if setImmediate g5 \<noteq> None
                then g5\<lparr>setImmediate := setImmediate api\<rparr> else g5);
          g7 = g6\<lparr>setInterval := setInterval api\<rparr>;
          g8 = g7\<lparr>setTimeout := setTimeout api\<rparr>
      in g8\<lparr>nextTick := nextTick api\<rparr>)"

definition useRealTimers :: "'r FakeTimers \<Rightarrow> 'r FakeTimers" where
  "useRealTimers s = s\<lparr>global := install (timerAPIs s) (global s)\<rparr>"

definition useFakeTimers :: "'r FakeTimers \<Rightarrow> 'r FakeTimers" where
  "useFakeTimers s =
     (let s1 = createMocks s in
      case fakeTimerAPIs s1 of
        None \<Rightarrow> s1
      | Some api \<Rightarrow> s1\<lparr>global := install api (global s1)\<rparr>)"

text \<open>
  The callback of \<open>runWithRealTimers\<close> runs while the host's own primitives are
  installed, so what it schedules goes to the host. It is a function on the globals that
  may fail.
\<close>

definition runWithRealTimers ::
  "(TimerAPI \<Rightarrow> error option \<times> TimerAPI) \<Rightarrow> 'r FakeTimers \<Rightarrow> error option \<times> 'r FakeTimers" where
  "runWithRealTimers cb s =
     (let prevClearImmediate = clearImmediate (global s);
          prevClearInterval = clearInterval (global s);
          prevClearTimeout = clearTimeout (global s);
          prevNextTick = nextTick (global s);
          prevSetImmediate = setImmediate (global s);
          prevSetInterval = setInterval (global s);
          prevSetTimeout = setTimeout (global s);
          s1 = useRealTimers s
      in case cb (global s1) of
           (cbErr, g) \<Rightarrow>
             (cbErr,
              s1\<lparr>global := g\<lparr>clearImmediate := prevClearImmediate,
                              clearInterval := prevClearInterval,
                              clearTimeout := prevClearTimeout,
                              nextTick := prevNextTick,
                              setImmediate := prevSetImmediate,
                              setInterval := prevSetInterval,
                              setTimeout := prevSetTimeout\<rparr>\<rparr>))"

subsection \<open>A concrete host and a fresh scheduler\<close>

text \<open>
  A host that defines all nine primitives, a bridge whose refs are the ids themselves
  (a host with integer handles), and a scheduler built on them with the fakes installed.
\<close>

definition host_globals :: TimerAPI where
  "host_globals =
     \<lparr> cancelAnimationFrame = Some (HostFn 0), clearImmediate = Some (HostFn 1),
       clearInterval = Some (HostFn 2), clearTimeout = Some (HostFn 3),
       nextTick = Some (HostFn 4), requestAnimationFrame = Some (HostFn 5),
       setImmediate = Some (HostFn 6), setInterval = Some (HostFn 7),
       setTimeout = Some (HostFn 8) \<rparr>"

definition plain_refs :: "int TimerConfig" where
  "plain_refs = \<lparr> idToRef = (\<lambda>n. n), refToId = (\<lambda>r. Some r) \<rparr>"

definition fresh :: "nat option \<Rightarrow> int FakeTimers" where
  "fresh ml = useFakeTimers (FakeTimers_new host_globals plain_refs ml)"

subsection \<open>Programs used in the scenarios\<close>

text \<open>
  \<open>quiet\<close>: no callback calls a primitive. \<open>reticking\<close>: every callback registers itself
  as a tick again. \<open>rescheduling\<close>: callback 0 schedules a timeout of 50 ms for
  callback 1, and the other callbacks call nothing.
\<close>

definition quiet :: "'r program" where
  "quiet cb = []"

definition reticking :: "'r program" where
  "reticking cb = [NextTick cb]"


subsection \<open>Pending timeouts whose callbacks call nothing\<close>


subsection \<open>States used in the scenarios\<close>



definition one_interval :: "int FakeTimers" where
  "one_interval = snd (fakeSetInterval 0 (Some 30) (fresh None))"

definition throwing :: "'r program" where
  "throwing cb = [Throw 0]"

subsection \<open>Reading the history of a drain\<close>

text \<open>
  \<open>fired_below_year ev\<close>: if \<open>ev\<close> is the firing of a timer, the timer's expiry was
  below \<open>MS_IN_A_YEAR\<close>. \<open>fires_below_year s s'\<close>: the history of \<open>s'\<close> is the history
  of \<open>s\<close> followed by such events only. \<open>far_interval\<close>: one interval whose delay is
  exactly \<open>MS_IN_A_YEAR\<close>, scheduled at virtual-now 0.
\<close>

definition fired_below_year :: "event \<Rightarrow> bool" where
  "fired_below_year ev =
     (case ev of TimerFired h e n \<Rightarrow> e < MS_IN_A_YEAR | TickRan u \<Rightarrow> True | ImmediateRan u \<Rightarrow> True)"

definition fires_below_year :: "'r FakeTimers \<Rightarrow> 'r FakeTimers \<Rightarrow> bool" where
  "fires_below_year s s' \<longleftrightarrow>
     take (length (history s)) (history s') = history s \<and>
     list_all fired_below_year (drop (length (history s)) (history s'))"

definition far_interval :: "int FakeTimers" where
  "far_interval = snd (fakeSetInterval 0 (Some 31536000000) (fresh None))"

subsection \<open>What a callback can do to the stored timers\<close>








subsection \<open>A disposed scheduler\<close>

text \<open>
  \<open>stays_disposed s s'\<close>: \<open>s'\<close> is disposed and none of its three containers is longer
  than in \<open>s\<close>.
\<close>

definition stays_disposed :: "'r FakeTimers \<Rightarrow> 'r FakeTimers \<Rightarrow> bool" where
  "stays_disposed s s' \<longleftrightarrow>
     disposed s' \<and> length (timers s') \<le> length (timers s) \<and>
     length (immediates s') \<le> length (immediates s) \<and> length (ticks s') \<le> length (ticks s)"



section \<open>Properties\<close>

lemmas fixture_defs =
  fresh_def useFakeTimers_def createMocks_def install_def FakeTimers_new_def reset_def
  host_globals_def plain_refs_def

lemmas fake_defs =
  fakeSetTimeout_def fakeSetInterval_def fakeSetImmediate_def fakeNextTick_def
  fakeClearTimer_def fakeClearImmediate_def fakeRequestAnimationFrame_def

lemma fresh_fields:
  "ticks (fresh ml) = []" "immediates (fresh ml) = []" "timers (fresh ml) = []"
  "now (fresh ml) = 0" "uuidCounter (fresh ml) = 1" "\<not> disposed (fresh ml)"
  "history (fresh ml) = []" "cancelledTicks (fresh ml) = {}"
  "timerConfig (fresh ml) = plain_refs" "warnings (fresh ml) = 0"
  "checkFakeTimers (fresh ml) = fresh ml" "hostQueue (fresh ml) = []"
  "(case fakeTimerAPIs (fresh ml) of None \<Rightarrow> None | Some api \<Rightarrow> setTimeout api)
     = setTimeout (global (fresh ml))"
  "maxLoops (fresh ml) = (case ml of None \<Rightarrow> 100000 | Some n \<Rightarrow> if n = 0 then 100000 else n)"
  "nextTick (timerAPIs (fresh ml)) \<noteq> None" "setImmediate (timerAPIs (fresh ml)) \<noteq> None"
  by (simp_all add: fixture_defs checkFakeTimers_def Let_def)

subsection \<open>Clearing all timers\<close>

text \<open>
  C2, as stated, fails: \<open>clearAllTimers\<close> does not touch the tick sequence.
  With one tick pending, \<open>getTimerCount()\<close> is 1 immediately after \<open>clearAllTimers()\<close>.
\<close>

theorem clearAllTimers_keeps_ticks:
  "fst (getTimerCount (clearAllTimers (snd (fakeNextTick 0 (fresh None))))) = 1"
  by (simp add: getTimerCount_def clearAllTimers_def fakeNextTick_def fresh_fields)

text \<open>
  C2, amended: \<open>clearAllTimers()\<close> empties the timer map and the immediate sequence and
  leaves the tick sequence, virtual-now and the cancelled-ticks set unchanged, so
  \<open>getTimerCount()\<close> immediately afterwards is the number of pending ticks.
\<close>

theorem clearAllTimers_effect:
  "timers (clearAllTimers s) = [] \<and> immediates (clearAllTimers s) = [] \<and>
   ticks (clearAllTimers s) = ticks s \<and> now (clearAllTimers s) = now s \<and>
   cancelledTicks (clearAllTimers s) = cancelledTicks s \<and>
   fst (getTimerCount (clearAllTimers s)) = length (ticks s)"
  by (simp add: clearAllTimers_def getTimerCount_def)

subsection \<open>Cancelling a timer\<close>

text \<open>
  C9: \<open>_fakeClearTimer\<close> (the fake \<open>clearTimeout\<close>, \<open>clearInterval\<close> and
  \<open>cancelAnimationFrame\<close>) applied to a ref that the bridge maps to nothing, or to an id
  that is not a key of the timer map, returns the state unchanged; and clearing the same
  ref a second time changes nothing more.
\<close>

theorem fakeClearTimer_absent:
  "((case refToId (timerConfig s) r of None \<Rightarrow> True | Some u \<Rightarrow> u \<notin> fst ` set (timers s))
      \<longrightarrow> fakeClearTimer r s = s) \<and>
   fakeClearTimer r (fakeClearTimer r s) = fakeClearTimer r s"
  by (auto simp add: fakeClearTimer_def delete_idem split: option.splits)

theorem fakeClearTimer_absent_witness:
  "refToId (timerConfig (snd (fakeSetTimeout 0 (JNumber (Finite 10)) (fresh None)))) 5 = Some 5 \<and>
   5 \<notin> fst ` set (timers (snd (fakeSetTimeout 0 (JNumber (Finite 10)) (fresh None)))) \<and>
   fakeClearTimer 5 (snd (fakeSetTimeout 0 (JNumber (Finite 10)) (fresh None)))
     = snd (fakeSetTimeout 0 (JNumber (Finite 10)) (fresh None))"
  using fakeClearTimer_absent [of "snd (fakeSetTimeout 0 (JNumber (Finite 10)) (fresh None))" 5]
  by (simp add: fakeSetTimeout_def toNumber_def fresh_fields plain_refs_def Let_def)

subsection \<open>The delay coercion of the fake \<open>setTimeout\<close>\<close>

lemma trunc_mod_range:
  "0 \<le> trunc q mod 4294967296" "trunc q mod 4294967296 < 4294967296"
  by simp_all

lemma toInt32_range: "- 2147483648 \<le> toInt32 x \<and> toInt32 x < 2147483648"
proof (cases x)
  case (Finite q)
  define m where "m = trunc q mod 4294967296"
  have "0 \<le> m" "m < 4294967296" unfolding m_def by simp_all
  then have "- 2147483648 \<le> (if 2147483648 \<le> m then m - 4294967296 else m) \<and>
             (if 2147483648 \<le> m then m - 4294967296 else m) < 2147483648"
    by simp
  then show ?thesis unfolding Finite toInt32_def m_def by (simp add: Let_def)
qed (simp_all add: toInt32_def)

lemma toInt32_congruent: "(toInt32 (Finite q) - trunc q) mod 4294967296 = 0"
proof -
  define k where "k = trunc q"
  have a: "(k mod 4294967296 - k) mod 4294967296 = 0"
    by (simp add: mod_diff_left_eq)
  have "k mod 4294967296 - 4294967296 - k = (k mod 4294967296 - k) - 4294967296"
    by simp
  then have b: "(k mod 4294967296 - 4294967296 - k) mod 4294967296 = 0"
    using a by (simp only: minus_mod_self2)
  show ?thesis
    using a b unfolding toInt32_def k_def by (simp add: Let_def)
qed

lemma wrap_small:
  fixes k :: int
  assumes "- 2147483648 \<le> k" "k < 2147483648"
  shows "(if 2147483648 \<le> k mod 4294967296 then k mod 4294967296 - 4294967296
          else k mod 4294967296) = k"
proof (cases "k < 0")
  case True
  have "(k + 4294967296) mod 4294967296 = k + 4294967296"
    using assms True by (intro mod_pos_pos_trivial) simp_all
  then have "k mod 4294967296 = k + 4294967296" by simp
  then show ?thesis using assms by simp
next
  case False
  then have "k mod 4294967296 = k" using assms by simp
  then show ?thesis using assms by simp
qed

lemma toInt32_small:
  assumes "- 2147483649 < q" "q < 2147483648"
  shows "toInt32 (Finite q) = trunc q"
proof -
  define k where "k = trunc q"
  have lo: "- 2147483648 \<le> k"
    using assms(1) unfolding k_def trunc_def by (auto simp: le_ceiling_iff le_floor_iff)
  have hi: "k < 2147483648"
    using assms(2) unfolding k_def trunc_def by (auto simp: ceiling_less_iff floor_less_iff)
  have "toInt32 (Finite q) =
          (if 2147483648 \<le> k mod 4294967296 then k mod 4294967296 - 4294967296
           else k mod 4294967296)"
    unfolding toInt32_def k_def by (simp add: Let_def)
  then show ?thesis using wrap_small [OF lo hi] unfolding k_def by simp
qed

lemma trunc_sign:
  "q \<le> - 1 \<Longrightarrow> trunc q < 0" "- 1 < q \<Longrightarrow> q < 1 \<Longrightarrow> trunc q = 0" "1 \<le> q \<Longrightarrow> 0 < trunc q"
proof -
  show "q \<le> - 1 \<Longrightarrow> trunc q < 0"
    unfolding trunc_def by (auto simp: ceiling_less_iff)
  show "- 1 < q \<Longrightarrow> q < 1 \<Longrightarrow> trunc q = 0"
    unfolding trunc_def by (auto simp: ceiling_eq_iff floor_eq_iff)
  show "1 \<le> q \<Longrightarrow> 0 < trunc q"
    unfolding trunc_def by (auto simp: less_floor_iff)
qed

text \<open>
  C4, as stated, fails twice. \<open>Number(delay) | 0\<close> yields a signed
  32-bit integer, so a negative delay is not coerced to 0: the delay \<open>-5\<close> stays \<open>-5\<close>
  and the timer is stored with expiry \<open>now - 5\<close>. And a delay that is not a number is
  converted by \<open>Number()\<close> first, so it is coerced to 0 only when that conversion gives
  NaN or an infinity: the delay \<open>true\<close> is stored as 1 and a string or array that reads as
  the number 10 is stored as 10.
\<close>

theorem fakeSetTimeout_negative_delay:
  "timers (snd (fakeSetTimeout 0 (JNumber (Finite (- 5))) (fresh None))) =
     [(1, \<lparr>timer_type = ''timeout'', callback = 0, expiry = - 5, interval = None\<rparr>)] \<and>
   timers (snd (fakeSetTimeout 0 (JBool True) (fresh None))) =
     [(1, \<lparr>timer_type = ''timeout'', callback = 0, expiry = 1, interval = None\<rparr>)] \<and>
   timers (snd (fakeSetTimeout 0 (JString (Finite 10)) (fresh None))) =
     [(1, \<lparr>timer_type = ''timeout'', callback = 0, expiry = 10, interval = None\<rparr>)] \<and>
   timers (snd (fakeSetTimeout 0 (JObject (Finite 10)) (fresh None))) =
     [(1, \<lparr>timer_type = ''timeout'', callback = 0, expiry = 10, interval = None\<rparr>)]"
  by (simp add: fakeSetTimeout_def toInt32_def trunc_def toNumber_def fresh_fields Let_def)

text \<open>
  C4, amended. On a scheduler that is not disposed, the fake \<open>setTimeout\<close> first converts
  the delay with \<open>Number()\<close>. If that raises (a Symbol), the call raises the TypeError and
  stores nothing. Otherwise it stores a timeout timer under the current value of the uuid
  counter, with expiry virtual-now plus \<open>ToInt32\<close> of the converted delay, and returns
  \<open>idToRef\<close> of that id.
  \<open>Number()\<close> gives NaN for an absent delay, 0 for \<open>null\<close> and \<open>false\<close>, 1 for \<open>true\<close>,
  a number itself, and for a string or an object the number it converts to.
  \<open>ToInt32\<close> of a number is always in the signed 32-bit range; it is 0 for NaN and the
  infinities; for a finite number it is congruent modulo \<open>2^32\<close> to the number truncated
  toward zero, so that a large delay wraps around (\<open>2^31\<close> becomes \<open>-2^31\<close>, and
  \<open>2^32 + 5\<close> becomes 5); for a finite number strictly between \<open>-2^31 - 1\<close> and \<open>2^31\<close>
  it is the number truncated toward zero, which is negative for \<open>-1\<close> or less, 0 strictly
  between \<open>-1\<close> and 1, and positive for 1 or more.
\<close>

theorem fakeSetTimeout_coerces:
  "(\<not> disposed s \<and> toNumber delay = Inr x \<longrightarrow>
      fakeSetTimeout cb delay s =
        (Inr (Some (idToRef (timerConfig s) (uuidCounter s))),
         s\<lparr>uuidCounter := uuidCounter s + 1,
           timers := AList.update (uuidCounter s)
             \<lparr>timer_type = ''timeout'', callback = cb,
              expiry = now s + toInt32 x, interval = None\<rparr> (timers s)\<rparr>)) \<and>
   (\<not> disposed s \<and> toNumber delay = Inl e \<longrightarrow> fakeSetTimeout cb delay s = (Inl e, s)) \<and>
   toNumber JUndefined = Inr NaN \<and> toNumber JNull = Inr (Finite 0) \<and>
   toNumber (JBool False) = Inr (Finite 0) \<and> toNumber (JBool True) = Inr (Finite 1) \<and>
   toNumber (JNumber x) = Inr x \<and> toNumber (JString x) = Inr x \<and>
   toNumber (JObject x) = Inr x \<and> toNumber JSymbol = Inl TypeError \<and>
   - 2147483648 \<le> toInt32 x \<and> toInt32 x < 2147483648 \<and>
   toInt32 NaN = 0 \<and> toInt32 PosInfinity = 0 \<and> toInt32 NegInfinity = 0 \<and>
   (toInt32 (Finite q) - trunc q) mod 4294967296 = 0 \<and>
   toInt32 (Finite 2147483648) = - 2147483648 \<and> toInt32 (Finite 4294967301) = 5 \<and>
   (- 2147483649 < q \<and> q < 2147483648 \<longrightarrow>
      toInt32 (Finite q) = (if q < 0 then \<lceil>q\<rceil> else \<lfloor>q\<rfloor>)) \<and>
   (- 2147483649 < q \<and> q \<le> - 1 \<longrightarrow> toInt32 (Finite q) < 0) \<and>
   (- 1 < q \<and> q < 1 \<longrightarrow> toInt32 (Finite q) = 0) \<and>
   (1 \<le> q \<and> q < 2147483648 \<longrightarrow> 0 < toInt32 (Finite q))"
proof -
  have a: "\<not> disposed s \<and> toNumber delay = Inr x \<longrightarrow>
      fakeSetTimeout cb delay s =
        (Inr (Some (idToRef (timerConfig s) (uuidCounter s))),
         s\<lparr>uuidCounter := uuidCounter s + 1,
           timers := AList.update (uuidCounter s)
             \<lparr>timer_type = ''timeout'', callback = cb,
              expiry = now s + toInt32 x, interval = None\<rparr> (timers s)\<rparr>)"
    by (simp add: fakeSetTimeout_def Let_def)
  have b: "\<not> disposed s \<and> toNumber delay = Inl e \<longrightarrow> fakeSetTimeout cb delay s = (Inl e, s)"
    by (simp add: fakeSetTimeout_def)
  have c: "toNumber JUndefined = Inr NaN \<and> toNumber JNull = Inr (Finite 0) \<and>
     toNumber (JBool False) = Inr (Finite 0) \<and> toNumber (JBool True) = Inr (Finite 1) \<and>
     toNumber (JNumber x) = Inr x \<and> toNumber (JString x) = Inr x \<and>
     toNumber (JObject x) = Inr x \<and> toNumber JSymbol = Inl TypeError"
    by (simp add: toNumber_def)
  have d: "toInt32 NaN = 0 \<and> toInt32 PosInfinity = 0 \<and> toInt32 NegInfinity = 0"
    by (simp add: toInt32_def)
  have w: "toInt32 (Finite 2147483648) = - 2147483648 \<and> toInt32 (Finite 4294967301) = 5"
    by (simp add: toInt32_def trunc_def)
  have f: "- 2147483649 < q \<and> q < 2147483648 \<longrightarrow>
      toInt32 (Finite q) = (if q < 0 then \<lceil>q\<rceil> else \<lfloor>q\<rfloor>)"
    using toInt32_small [of q] by (simp add: trunc_def)
  have g: "- 2147483649 < q \<and> q \<le> - 1 \<longrightarrow> toInt32 (Finite q) < 0"
    using toInt32_small [of q] trunc_sign(1) [of q] by simp
  have h: "- 1 < q \<and> q < 1 \<longrightarrow> toInt32 (Finite q) = 0"
    using toInt32_small [of q] trunc_sign(2) [of q] by simp
  have i: "1 \<le> q \<and> q < 2147483648 \<longrightarrow> 0 < toInt32 (Finite q)"
    using toInt32_small [of q] trunc_sign(3) [of q] by simp
  show ?thesis
    using a b c d w f g h i toInt32_range [of x] toInt32_congruent [of q] by blast
qed

theorem fakeSetTimeout_coerces_witness:
  "fakeSetTimeout 0 (JNumber (Finite (- (7 / 2)))) (fresh None) =
     (Inr (Some 1),
      (fresh None)\<lparr>uuidCounter := 2,
        timers := [(1, \<lparr>timer_type = ''timeout'', callback = 0, expiry = - 3, interval = None\<rparr>)]\<rparr>) \<and>
   fakeSetTimeout 0 JSymbol (fresh None) = (Inl TypeError, fresh None) \<and>
   toInt32 (Finite (- (7 / 2))) = - 3 \<and> toInt32 (Finite (- (1 / 2))) = 0 \<and>
   toInt32 (Finite (7 / 2)) = 3"
proof -
  have d: "\<not> disposed (fresh None)" by (simp add: fresh_fields)
  have c: "\<lceil>- (7 / 2) :: rat\<rceil> = - 3" "\<lfloor>7 / 2 :: rat\<rfloor> = 3" by code_simp+
  have q: "- 2147483649 < (- (7 / 2) :: rat)" "(- (7 / 2) :: rat) < 2147483648"
    "(- (7 / 2) :: rat) < 0" "(- (7 / 2) :: rat) \<le> - 1"
    "- 1 < (- (1 / 2) :: rat)" "(- (1 / 2) :: rat) < 1"
    "- 2147483649 < (7 / 2 :: rat)" "(7 / 2 :: rat) < 2147483648" "1 \<le> (7 / 2 :: rat)"
    "\<not> (7 / 2 :: rat) < 0"
    by simp_all
  note A = fakeSetTimeout_coerces [where s = "fresh None" and cb = 0
      and delay = "JNumber (Finite (- (7 / 2)))" and x = "Finite (- (7 / 2))" and e = TypeError
      and q = "- (7 / 2)"]
  note B = fakeSetTimeout_coerces [where s = "fresh None" and cb = 0
      and delay = JSymbol and x = NaN and e = TypeError and q = "- (1 / 2)"]
  note C = fakeSetTimeout_coerces [where s = "fresh None" and cb = 0
      and delay = JNull and x = "Finite 0" and e = TypeError and q = "7 / 2"]
  from A q c have v: "toInt32 (Finite (- (7 / 2))) = - 3" by simp
  from A d have "fakeSetTimeout 0 (JNumber (Finite (- (7 / 2)))) (fresh None) =
        (Inr (Some (idToRef (timerConfig (fresh None)) (uuidCounter (fresh None)))),
         (fresh None)\<lparr>uuidCounter := uuidCounter (fresh None) + 1,
           timers := AList.update (uuidCounter (fresh None))
             \<lparr>timer_type = ''timeout'', callback = 0,
              expiry = now (fresh None) + toInt32 (Finite (- (7 / 2))),
              interval = None\<rparr> (timers (fresh None))\<rparr>)" by blast
  then have a: "fakeSetTimeout 0 (JNumber (Finite (- (7 / 2)))) (fresh None) =
     (Inr (Some 1),
      (fresh None)\<lparr>uuidCounter := 2,
        timers := [(1, \<lparr>timer_type = ''timeout'', callback = 0, expiry = - 3, interval = None\<rparr>)]\<rparr>)"
    using v by (simp add: fresh_fields plain_refs_def)
  from B d have b: "fakeSetTimeout 0 JSymbol (fresh None) = (Inl TypeError, fresh None)"
    by blast
  from B q have z: "toInt32 (Finite (- (1 / 2))) = 0" by blast
  from C q c have p: "toInt32 (Finite (7 / 2)) = 3" by simp
  show ?thesis using a b v z p by blast
qed

subsection \<open>Borrowing the real timers\<close>

text \<open>
  C7 at a host that has the animation-frame primitives, with the fakes installed and a
  callback that does nothing: \<open>runWithRealTimers\<close> saves and restores seven primitives,
  \<open>useRealTimers\<close> replaces nine, and so \<open>requestAnimationFrame\<close> and
  \<open>cancelAnimationFrame\<close> are the host's own after the call instead of the fakes
  that were installed before it.
\<close>

theorem runWithRealTimers_leaves_real_animation_frame:
  "requestAnimationFrame (global (fresh None)) = Some (MockFn 0 ''requestAnimationFrame'') \<and>
   cancelAnimationFrame (global (fresh None)) = Some (MockFn 0 ''cancelAnimationFrame'') \<and>
   runWithRealTimers (\<lambda>g. (None, g)) (fresh None) =
     (None, (fresh None)\<lparr>global := (global (fresh None))
        \<lparr>requestAnimationFrame := Some (HostFn 5), cancelAnimationFrame := Some (HostFn 0)\<rparr>\<rparr>)"
  by (simp add: runWithRealTimers_def useRealTimers_def fixture_defs Let_def)

text \<open>
  What \<open>runWithRealTimers\<close> does keep: the callback's failure is returned, the seven
  saved primitives are back, and the clock and the containers are untouched.
\<close>

lemma runWithRealTimers_restores:
  "runWithRealTimers cb s = (r, s') \<Longrightarrow>
     r = fst (cb (global (useRealTimers s))) \<and>
     now s' = now s \<and> timers s' = timers s \<and> ticks s' = ticks s \<and> immediates s' = immediates s \<and>
     clearImmediate (global s') = clearImmediate (global s) \<and>
     clearInterval (global s') = clearInterval (global s) \<and>
     clearTimeout (global s') = clearTimeout (global s) \<and>
     nextTick (global s') = nextTick (global s) \<and>
     setImmediate (global s') = setImmediate (global s) \<and>
     setInterval (global s') = setInterval (global s) \<and>
     setTimeout (global s') = setTimeout (global s)"
  by (auto simp add: runWithRealTimers_def useRealTimers_def Let_def split: prod.splits)

subsection \<open>Unfolding the drain loops\<close>

text \<open>One iteration of each loop, for a positive number of iterations left.\<close>

lemma runAllTicks_loop_pos:
  "0 < n \<Longrightarrow> runAllTicks_loop p n s =
     (case ticks s of
        [] \<Rightarrow> (Break, s)
      | tick # rest \<Rightarrow>
          (let s1 = s\<lparr>ticks := rest\<rparr> in
           if uuid tick \<in> cancelledTicks s1 then runAllTicks_loop p (n - 1) s1
           else
             (case invoke p (tick_callback tick)
                     (s1\<lparr>cancelledTicks := insert (uuid tick) (cancelledTicks s1),
                         history := history s1 @ [TickRan (uuid tick)]\<rparr>) of
                (Some e, s2) \<Rightarrow> (Raised e, s2)
              | (None, s2) \<Rightarrow> runAllTicks_loop p (n - 1) s2)))"
  by (cases n) (simp_all add: Let_def split: list.split option.split prod.split)

lemma runAllImmediates_loop_pos:
  "0 < n \<Longrightarrow> runAllImmediates_loop p n s =
     (case immediates s of
        [] \<Rightarrow> (Break, s)
      | immediate # rest \<Rightarrow>
          (case runImmediate p immediate (s\<lparr>immediates := rest\<rparr>) of
             (Some e, s2) \<Rightarrow> (Raised e, s2)
           | (None, s2) \<Rightarrow> runAllImmediates_loop p (n - 1) s2))"
  by (cases n) (simp_all add: Let_def split: list.split option.split prod.split)

lemma runAllTimers_loop_pos:
  "0 < n \<Longrightarrow> runAllTimers_loop p n s =
     (case getNextTimerHandle s of
        None \<Rightarrow> (Break, s)
      | Some nextTimerHandle \<Rightarrow>
          (case and_then
                  (and_then (runTimerHandle p nextTimerHandle s)
                     (\<lambda>s1. if immediates s1 \<noteq> [] then runAllImmediates p s1 else (None, s1)))
                  (\<lambda>s2. if ticks s2 \<noteq> [] then runAllTicks p s2 else (None, s2)) of
             (Some e, s3) \<Rightarrow> (Raised e, s3)
           | (None, s3) \<Rightarrow> runAllTimers_loop p (n - 1) s3))"
  by (cases n) (simp_all add: Let_def split: list.split option.split prod.split)

lemma advanceTimersByTime_loop_pos:
  "0 < n \<Longrightarrow> advanceTimersByTime_loop p n msToRun s =
     (case getNextTimerHandle s of
        None \<Rightarrow> (Break, s)
      | Some timerHandle \<Rightarrow>
          (case map_of (timers s) timerHandle of
             None \<Rightarrow> (Break, s)
           | Some timerValue \<Rightarrow>
               (let nextTimerExpiry = expiry timerValue in
                if now s + msToRun < nextTimerExpiry then (Break, s\<lparr>now := now s + msToRun\<rparr>)
                else
                  (case runTimerHandle p timerHandle (s\<lparr>now := nextTimerExpiry\<rparr>) of
                     (Some e, s') \<Rightarrow> (Raised e, s')
                   | (None, s') \<Rightarrow>
                       advanceTimersByTime_loop p (n - 1) (msToRun - (nextTimerExpiry - now s)) s'))))"
  by (cases n) (simp_all add: Let_def split: list.split option.split prod.split)

lemmas loop_pos =
  runAllTicks_loop_pos runAllImmediates_loop_pos runAllTimers_loop_pos advanceTimersByTime_loop_pos


subsection \<open>The next-timer search\<close>

text \<open>
  The search returns the first entry, in insertion order, whose expiry is least among the
  entries with expiry below \<open>MS_IN_A_YEAR\<close>; and a stable sort by expiry starts with
  that entry.
\<close>

lemma next_step_pair:
  "next_step (h, b) x = (if expiry (snd x) < b then (Some (fst x), expiry (snd x)) else (h, b))"
  by (simp add: next_step_def)

lemma foldl_next_step:
  "foldl next_step (h, b) xs = (h', b') \<Longrightarrow>
     (h' = h \<and> b' = b \<and> (\<forall>e\<in>set xs. b \<le> expiry (snd e))) \<or>
     (\<exists>ys e zs. xs = ys @ e # zs \<and> h' = Some (fst e) \<and> b' = expiry (snd e) \<and>
        expiry (snd e) < b \<and> (\<forall>y\<in>set ys. expiry (snd e) < expiry (snd y)) \<and>
        (\<forall>z\<in>set zs. expiry (snd e) \<le> expiry (snd z)))"
proof (induction xs arbitrary: h b)
  case Nil
  then show ?case by simp
next
  case (Cons x xs)
  show ?case
  proof (cases "expiry (snd x) < b")
    case True
    with Cons.prems have run: "foldl next_step (Some (fst x), expiry (snd x)) xs = (h', b')"
      by (simp add: next_step_pair)
    from Cons.IH [OF run] show ?thesis
    proof
      assume "h' = Some (fst x) \<and> b' = expiry (snd x) \<and> (\<forall>e\<in>set xs. expiry (snd x) \<le> expiry (snd e))"
      with True have "x # xs = [] @ x # xs \<and> h' = Some (fst x) \<and> b' = expiry (snd x) \<and>
        expiry (snd x) < b \<and> (\<forall>y\<in>set []. expiry (snd x) < expiry (snd y)) \<and>
        (\<forall>z\<in>set xs. expiry (snd x) \<le> expiry (snd z))" by simp
      then show ?thesis by blast
    next
      assume "\<exists>ys e zs. xs = ys @ e # zs \<and> h' = Some (fst e) \<and> b' = expiry (snd e) \<and>
        expiry (snd e) < expiry (snd x) \<and> (\<forall>y\<in>set ys. expiry (snd e) < expiry (snd y)) \<and>
        (\<forall>z\<in>set zs. expiry (snd e) \<le> expiry (snd z))"
      then obtain ys e zs where s: "xs = ys @ e # zs" "h' = Some (fst e)" "b' = expiry (snd e)"
        "expiry (snd e) < expiry (snd x)" "\<forall>y\<in>set ys. expiry (snd e) < expiry (snd y)"
        "\<forall>z\<in>set zs. expiry (snd e) \<le> expiry (snd z)" by blast
      with True have "x # xs = (x # ys) @ e # zs \<and> h' = Some (fst e) \<and> b' = expiry (snd e) \<and>
        expiry (snd e) < b \<and> (\<forall>y\<in>set (x # ys). expiry (snd e) < expiry (snd y)) \<and>
        (\<forall>z\<in>set zs. expiry (snd e) \<le> expiry (snd z))" by simp
      then show ?thesis by blast
    qed
  next
    case False
    with Cons.prems have run: "foldl next_step (h, b) xs = (h', b')"
      by (simp add: next_step_pair)
    from Cons.IH [OF run] show ?thesis
    proof
      assume "h' = h \<and> b' = b \<and> (\<forall>e\<in>set xs. b \<le> expiry (snd e))"
      with False show ?thesis by simp
    next
      assume "\<exists>ys e zs. xs = ys @ e # zs \<and> h' = Some (fst e) \<and> b' = expiry (snd e) \<and>
        expiry (snd e) < b \<and> (\<forall>y\<in>set ys. expiry (snd e) < expiry (snd y)) \<and>
        (\<forall>z\<in>set zs. expiry (snd e) \<le> expiry (snd z))"
      then obtain ys e zs where s: "xs = ys @ e # zs" "h' = Some (fst e)" "b' = expiry (snd e)"
        "expiry (snd e) < b" "\<forall>y\<in>set ys. expiry (snd e) < expiry (snd y)"
        "\<forall>z\<in>set zs. expiry (snd e) \<le> expiry (snd z)" by blast
      with False have "x # xs = (x # ys) @ e # zs \<and> h' = Some (fst e) \<and> b' = expiry (snd e) \<and>
        expiry (snd e) < b \<and> (\<forall>y\<in>set (x # ys). expiry (snd e) < expiry (snd y)) \<and>
        (\<forall>z\<in>set zs. expiry (snd e) \<le> expiry (snd z))" by simp
      then show ?thesis by blast
    qed
  qed
qed

lemma getNextTimerHandle_Some:
  assumes "getNextTimerHandle s = Some h"
  shows "\<exists>ys t zs. timers s = ys @ (h, t) # zs \<and> expiry t < MS_IN_A_YEAR \<and>
           (\<forall>y\<in>set ys. expiry t < expiry (snd y)) \<and> (\<forall>z\<in>set zs. expiry t \<le> expiry (snd z))"
proof -
  obtain h' b' where r: "foldl next_step (None, MS_IN_A_YEAR) (timers s) = (h', b')"
    by (cases "foldl next_step (None, MS_IN_A_YEAR) (timers s)")
  with assms have h': "h' = Some h" by (simp add: getNextTimerHandle_def)
  from foldl_next_step [OF r] h' obtain ys e zs where
    "timers s = ys @ e # zs" "Some h = Some (fst e)" "expiry (snd e) < MS_IN_A_YEAR"
    "\<forall>y\<in>set ys. expiry (snd e) < expiry (snd y)" "\<forall>z\<in>set zs. expiry (snd e) \<le> expiry (snd z)"
    by auto
  then have "timers s = ys @ (h, snd e) # zs \<and> expiry (snd e) < MS_IN_A_YEAR \<and>
     (\<forall>y\<in>set ys. expiry (snd e) < expiry (snd y)) \<and> (\<forall>z\<in>set zs. expiry (snd e) \<le> expiry (snd z))"
    by (cases e) simp
  then show ?thesis by blast
qed





lemma map_of_middle:
  "distinct (map fst (ys @ (h, t) # zs)) \<Longrightarrow> map_of (ys @ (h, t) # zs) h = Some t"
  by (induction ys) auto

subsection \<open>A full drain of timeouts whose callbacks call nothing\<close>


lemma checkFakeTimers_fields:
  "ticks (checkFakeTimers s) = ticks s" "immediates (checkFakeTimers s) = immediates s"
  "timers (checkFakeTimers s) = timers s" "now (checkFakeTimers s) = now s"
  "history (checkFakeTimers s) = history s" "maxLoops (checkFakeTimers s) = maxLoops s"
  "uuidCounter (checkFakeTimers s) = uuidCounter s" "disposed (checkFakeTimers s) = disposed s"
  "cancelledTicks (checkFakeTimers s) = cancelledTicks s"
  "timerConfig (checkFakeTimers s) = timerConfig s"
  by (simp_all add: checkFakeTimers_def)




subsection \<open>The scenario states, evaluated\<close>

lemmas drain_defs =
  runAllTicks_def runAllImmediates_def runAllTimers_def advanceTimersByTime_def
  runTimerHandle_def runImmediate_def getNextTimerHandle_def
  next_step_def invoke_def and_then_def MS_IN_A_YEAR_def checkFakeTimers_def discard_def





lemma one_interval_eq:
  "one_interval = (fresh None)\<lparr>uuidCounter := 2,
     timers := [(1, \<lparr>timer_type = ''interval'', callback = 0, expiry = 30, interval = Some 30\<rparr>)]\<rparr>"
  by (simp add: one_interval_def fakeSetInterval_def fresh_fields Let_def)


lemma one_interval_run:
  "advanceTimersByTime quiet 100 one_interval =
     (None, one_interval\<lparr>now := 100,
        timers := [(1, \<lparr>timer_type = ''interval'', callback = 0, expiry = 120, interval = Some 30\<rparr>)],
        history := [TimerFired 1 30 30, TimerFired 1 60 60, TimerFired 1 90 90]\<rparr>)"
  unfolding one_interval_eq
  by (simp add: drain_defs loop_pos fresh_fields quiet_def Let_def)

subsection \<open>Order of firing in a full drain\<close>




subsection \<open>An interval under \<open>advanceTimersByTime\<close>\<close>

text \<open>
  C5: for an interval of 30 ms scheduled at virtual-now 0, \<open>advanceTimersByTime(100)\<close>
  invokes the callback three times, at virtual-now 30, 60 and 90, and leaves virtual-now
  at 100 and one entry with expiry 120. Running the handle of an interval writes the new
  expiry \<open>now + interval\<close> into the stored timer before the callback is invoked: the
  callback runs on the state that already holds it, and when the callback throws at once
  the state that comes back with the exception holds it too.
\<close>

theorem interval_advance:
  "advanceTimersByTime quiet 100 one_interval =
     (None, one_interval\<lparr>now := 100,
        timers := [(1, \<lparr>timer_type = ''interval'', callback = 0, expiry = 120, interval = Some 30\<rparr>)],
        history := [TimerFired 1 30 30, TimerFired 1 60 60, TimerFired 1 90 90]\<rparr>) \<and>
   (map_of (timers s) h = Some t \<and> timer_type t = ''interval'' \<longrightarrow>
      runTimerHandle p h s =
        invoke p (callback t)
          (s\<lparr>timers := AList.update h
               (t\<lparr>expiry := now s + (case interval t of None \<Rightarrow> 0 | Some i \<Rightarrow> i)\<rparr>) (timers s),
             history := history s @ [TimerFired h (expiry t) (now s)]\<rparr>)) \<and>
   (map_of (timers s) h = Some t \<and> timer_type t = ''interval'' \<and> p (callback t) = Throw e # cs \<longrightarrow>
      runTimerHandle p h s =
        (Some (Thrown e),
         s\<lparr>timers := AList.update h
              (t\<lparr>expiry := now s + (case interval t of None \<Rightarrow> 0 | Some i \<Rightarrow> i)\<rparr>) (timers s),
           history := history s @ [TimerFired h (expiry t) (now s)]\<rparr>))"
proof -
  have a: "map_of (timers s) h = Some t \<and> timer_type t = ''interval'' \<longrightarrow>
      runTimerHandle p h s =
        invoke p (callback t)
          (s\<lparr>timers := AList.update h
               (t\<lparr>expiry := now s + (case interval t of None \<Rightarrow> 0 | Some i \<Rightarrow> i)\<rparr>) (timers s),
             history := history s @ [TimerFired h (expiry t) (now s)]\<rparr>)"
    by (simp add: runTimerHandle_def)
  have b: "p (callback t) = Throw e # cs \<longrightarrow> invoke p (callback t) s' = (Some (Thrown e), s')" for s'
    by (simp add: invoke_def)
  from a b one_interval_run show ?thesis by simp
qed

theorem interval_advance_witness:
  "map_of (timers (one_interval\<lparr>now := 30\<rparr>)) 1
     = Some \<lparr>timer_type = ''interval'', callback = 0, expiry = 30, interval = Some 30\<rparr> \<and>
   throwing 0 = Throw 0 # [] \<and>
   runTimerHandle throwing 1 (one_interval\<lparr>now := 30\<rparr>) =
     (Some (Thrown 0),
      one_interval\<lparr>now := 30,
        timers := [(1, \<lparr>timer_type = ''interval'', callback = 0, expiry = 60, interval = Some 30\<rparr>)],
        history := [TimerFired 1 30 30]\<rparr>)"
proof -
  have m: "map_of (timers (one_interval\<lparr>now := 30\<rparr>)) 1
     = Some \<lparr>timer_type = ''interval'', callback = 0, expiry = 30, interval = Some 30\<rparr>"
    unfolding one_interval_eq by simp
  have t: "throwing 0 = Throw 0 # []" by (simp add: throwing_def)
  from interval_advance [of "one_interval\<lparr>now := 30\<rparr>" 1
      "\<lparr>timer_type = ''interval'', callback = 0, expiry = 30, interval = Some 30\<rparr>"
      throwing 0 "[]"] m t
  have "runTimerHandle throwing 1 (one_interval\<lparr>now := 30\<rparr>) =
     (Some (Thrown 0),
      one_interval\<lparr>now := 30,
        timers := AList.update 1
          \<lparr>timer_type = ''interval'', callback = 0, expiry = 60, interval = Some 30\<rparr>
          (timers (one_interval\<lparr>now := 30\<rparr>)),
        history := history (one_interval\<lparr>now := 30\<rparr>) @ [TimerFired 1 30 30]\<rparr>)"
    by (simp add: invoke_def throwing_def)
  moreover have "AList.update 1
          \<lparr>timer_type = ''interval'', callback = 0, expiry = 60, interval = Some 30\<rparr>
          (timers (one_interval\<lparr>now := 30\<rparr>)) =
        [(1, \<lparr>timer_type = ''interval'', callback = 0, expiry = 60, interval = Some 30\<rparr>)]"
    "history (one_interval\<lparr>now := 30\<rparr>) = []"
    unfolding one_interval_eq by (simp_all add: fresh_fields)
  ultimately show ?thesis using m t by simp
qed

subsection \<open>The recursion guard of \<open>runAllTicks\<close>\<close>

text \<open>
  C6: with \<open>maxLoops = 5\<close> and a tick whose callback registers itself as a tick again,
  \<open>runAllTicks()\<close> invokes five callbacks and raises the ticks error. Nothing of the state
  is lost: the sixth tick is queued, \<open>getTimerCount()\<close> is 1, and a second
  \<open>runAllTicks()\<close> runs five more callbacks before it raises again.
\<close>

theorem runAllTicks_guard:
  "runAllTicks reticking (snd (fakeNextTick 0 (fresh (Some 5)))) =
     (Some (TooManyTicks 5),
      (fresh (Some 5))\<lparr>cancelledTicks := {1, 2, 3, 4, 5},
         ticks := [\<lparr>uuid = 6, tick_callback = 0\<rparr>],
         uuidCounter := 7,
         history := [TickRan 1, TickRan 2, TickRan 3, TickRan 4, TickRan 5],
         hostQueue := [RealTick 1, RealTick 2, RealTick 3, RealTick 4, RealTick 5, RealTick 6]\<rparr>) \<and>
   fst (getTimerCount (snd (runAllTicks reticking (snd (fakeNextTick 0 (fresh (Some 5))))))) = 1 \<and>
   runAllTicks reticking (snd (runAllTicks reticking (snd (fakeNextTick 0 (fresh (Some 5)))))) =
     (Some (TooManyTicks 5),
      (fresh (Some 5))\<lparr>cancelledTicks := {1, 2, 3, 4, 5, 6, 7, 8, 9, 10},
         ticks := [\<lparr>uuid = 11, tick_callback = 0\<rparr>],
         uuidCounter := 12,
         history := [TickRan 1, TickRan 2, TickRan 3, TickRan 4, TickRan 5,
                     TickRan 6, TickRan 7, TickRan 8, TickRan 9, TickRan 10],
         hostQueue := [RealTick 1, RealTick 2, RealTick 3, RealTick 4, RealTick 5, RealTick 6,
                       RealTick 7, RealTick 8, RealTick 9, RealTick 10, RealTick 11]\<rparr>)"
proof -
  have first: "runAllTicks reticking (snd (fakeNextTick 0 (fresh (Some 5)))) =
     (Some (TooManyTicks 5),
      (fresh (Some 5))\<lparr>cancelledTicks := {1, 2, 3, 4, 5},
         ticks := [\<lparr>uuid = 6, tick_callback = 0\<rparr>],
         uuidCounter := 7,
         history := [TickRan 1, TickRan 2, TickRan 3, TickRan 4, TickRan 5],
         hostQueue := [RealTick 1, RealTick 2, RealTick 3, RealTick 4, RealTick 5, RealTick 6]\<rparr>)"
    by (simp add: drain_defs loop_pos fakeNextTick_def fresh_fields reticking_def Let_def
        insert_commute)
  have second: "runAllTicks reticking
      ((fresh (Some 5))\<lparr>cancelledTicks := {1, 2, 3, 4, 5},
         ticks := [\<lparr>uuid = 6, tick_callback = 0\<rparr>],
         uuidCounter := 7,
         history := [TickRan 1, TickRan 2, TickRan 3, TickRan 4, TickRan 5],
         hostQueue := [RealTick 1, RealTick 2, RealTick 3, RealTick 4, RealTick 5, RealTick 6]\<rparr>) =
     (Some (TooManyTicks 5),
      (fresh (Some 5))\<lparr>cancelledTicks := {1, 2, 3, 4, 5, 6, 7, 8, 9, 10},
         ticks := [\<lparr>uuid = 11, tick_callback = 0\<rparr>],
         uuidCounter := 12,
         history := [TickRan 1, TickRan 2, TickRan 3, TickRan 4, TickRan 5,
                     TickRan 6, TickRan 7, TickRan 8, TickRan 9, TickRan 10],
         hostQueue := [RealTick 1, RealTick 2, RealTick 3, RealTick 4, RealTick 5, RealTick 6,
                       RealTick 7, RealTick 8, RealTick 9, RealTick 10, RealTick 11]\<rparr>)"
    by (simp add: drain_defs loop_pos fakeNextTick_def fresh_fields reticking_def Let_def
        insert_commute)
  show ?thesis unfolding first using second by (simp add: getTimerCount_def fresh_fields)
qed

subsection \<open>Timers a year or more away\<close>

lemma fires_below_yearI:
  "history s' = history s @ evs \<Longrightarrow> list_all fired_below_year evs \<Longrightarrow> fires_below_year s s'"
  by (simp add: fires_below_year_def)

lemma fires_below_yearD:
  assumes "fires_below_year s s'"
  shows "\<exists>evs. history s' = history s @ evs \<and> list_all fired_below_year evs"
proof -
  from assms have "history s' = history s @ drop (length (history s)) (history s')"
    and "list_all fired_below_year (drop (length (history s)) (history s'))"
    unfolding fires_below_year_def by (metis append_take_drop_id, simp)
  then show ?thesis by blast
qed

lemma fires_below_year_refl: "history s' = history s \<Longrightarrow> fires_below_year s s'"
  by (rule fires_below_yearI [of _ _ "[]"]) simp_all

lemma fires_below_year_trans:
  assumes "fires_below_year a b" "fires_below_year b c"
  shows "fires_below_year a c"
proof -
  from fires_below_yearD [OF assms(1)] obtain e1 where
    1: "history b = history a @ e1" "list_all fired_below_year e1" by blast
  from fires_below_yearD [OF assms(2)] obtain e2 where
    2: "history c = history b @ e2" "list_all fired_below_year e2" by blast
  show ?thesis
    by (rule fires_below_yearI [of _ _ "e1 @ e2"]) (simp_all add: 1 2)
qed

lemma fires_below_year_from:
  "history a = history b \<Longrightarrow> fires_below_year b c \<Longrightarrow> fires_below_year a c"
  by (simp add: fires_below_year_def)

lemma exec_cmd_history: "history (snd (exec_cmd c s)) = history s"
  by (cases c) (simp_all add: fake_defs discard_def Let_def split: option.splits sum.splits)

lemma exec_cmd_distinct:
  "distinct (map fst (timers s)) \<Longrightarrow> distinct (map fst (timers (snd (exec_cmd c s))))"
  by (cases c)
    (simp_all add: fake_defs discard_def Let_def distinct_update distinct_delete
      split: option.splits sum.splits)

lemma exec_cmds_history: "history (snd (exec_cmds cs s)) = history s"
proof (induction cs arbitrary: s)
  case Nil
  show ?case by simp
next
  case (Cons c cs)
  obtain r s1 where c: "exec_cmd c s = (r, s1)" by (cases "exec_cmd c s")
  then have h: "history s1 = history s" using exec_cmd_history [of c s] by simp
  show ?case
  proof (cases r)
    case None
    with c have "exec_cmds (c # cs) s = exec_cmds cs s1" by simp
    then show ?thesis using Cons.IH [of s1] h by simp
  next
    case (Some e)
    with c have "exec_cmds (c # cs) s = (Some e, s1)" by simp
    then show ?thesis using h by simp
  qed
qed

lemma exec_cmds_distinct:
  "distinct (map fst (timers s)) \<Longrightarrow> distinct (map fst (timers (snd (exec_cmds cs s))))"
proof (induction cs arbitrary: s)
  case Nil
  then show ?case by simp
next
  case (Cons c cs)
  obtain r s1 where c: "exec_cmd c s = (r, s1)" by (cases "exec_cmd c s")
  then have d: "distinct (map fst (timers s1))" using exec_cmd_distinct [OF Cons.prems, of c] by simp
  show ?case
  proof (cases r)
    case None
    with c have "exec_cmds (c # cs) s = exec_cmds cs s1" by simp
    then show ?thesis using Cons.IH [OF d] by simp
  next
    case (Some e)
    with c have "exec_cmds (c # cs) s = (Some e, s1)" by simp
    then show ?thesis using d by simp
  qed
qed

lemma invoke_safe:
  assumes "invoke p cb s = (r, s')"
  shows "history s' = history s"
    and "distinct (map fst (timers s)) \<Longrightarrow> distinct (map fst (timers s'))"
  using assms exec_cmds_history [of "p cb" s] exec_cmds_distinct [of s "p cb"]
  by (simp_all add: invoke_def)

lemma runImmediate_safe:
  assumes "distinct (map fst (timers s))" "runImmediate p i s = (r, s')"
  shows "distinct (map fst (timers s')) \<and> fires_below_year s s'"
proof -
  define s1 where "s1 = s\<lparr>history := history s @ [ImmediateRan (uuid i)]\<rparr>"
  obtain r2 s2 where inv: "invoke p (tick_callback i) s1 = (r2, s2)"
    by (cases "invoke p (tick_callback i) s1")
  have d1: "distinct (map fst (timers s1))" using assms(1) by (simp add: s1_def)
  from assms(2) inv have s': "s' = fakeClearImmediate (uuid i) s2"
    by (simp add: runImmediate_def s1_def)
  have "history s' = history s @ [ImmediateRan (uuid i)]"
    using invoke_safe(1) [OF inv] by (simp add: s' fakeClearImmediate_def s1_def)
  then have "fires_below_year s s'"
    by (rule fires_below_yearI) (simp add: fired_below_year_def)
  moreover have "distinct (map fst (timers s'))"
    using invoke_safe(2) [OF inv d1] by (simp add: s' fakeClearImmediate_def)
  ultimately show ?thesis by simp
qed

lemma runAllImmediates_loop_safe:
  "distinct (map fst (timers s)) \<Longrightarrow> runAllImmediates_loop p n s = (x, s') \<Longrightarrow>
     distinct (map fst (timers s')) \<and> fires_below_year s s'"
proof (induction n arbitrary: s)
  case 0
  then show ?case by (simp add: fires_below_year_refl)
next
  case (Suc n)
  show ?case
  proof (cases "immediates s")
    case Nil
    with Suc.prems show ?thesis by (simp add: fires_below_year_refl)
  next
    case (Cons i rest)
    define s1 where "s1 = s\<lparr>immediates := rest\<rparr>"
    obtain r s2 where run: "runImmediate p i s1 = (r, s2)" by (cases "runImmediate p i s1")
    have d1: "distinct (map fst (timers s1))" using Suc.prems(1) by (simp add: s1_def)
    have h1: "history s = history s1" by (simp add: s1_def)
    from runImmediate_safe [OF d1 run] have 2: "distinct (map fst (timers s2))"
      "fires_below_year s s2" using fires_below_year_from [OF h1] by simp_all
    show ?thesis
    proof (cases r)
      case None
      with Suc.prems(2) Cons run have "runAllImmediates_loop p n s2 = (x, s')"
        by (simp add: s1_def)
      from Suc.IH [OF 2(1) this] 2(2) show ?thesis
        using fires_below_year_trans by blast
    next
      case (Some e)
      with Suc.prems(2) Cons run have "s' = s2" by (simp add: s1_def)
      with 2 show ?thesis by simp
    qed
  qed
qed

lemma checkFakeTimers_safe:
  "timers (checkFakeTimers s) = timers s" "history (checkFakeTimers s) = history s"
  by (simp_all add: checkFakeTimers_def)

lemma runAllImmediates_safe:
  assumes "distinct (map fst (timers s))" "runAllImmediates p s = (r, s')"
  shows "distinct (map fst (timers s')) \<and> fires_below_year s s'"
proof -
  define s0 where "s0 = checkFakeTimers s"
  obtain x s1 where loop: "runAllImmediates_loop p (maxLoops s0) s0 = (x, s1)"
    by (cases "runAllImmediates_loop p (maxLoops s0) s0")
  from assms(2) loop have s': "s' = s1"
    by (cases x) (simp_all add: runAllImmediates_def s0_def Let_def)
  have "distinct (map fst (timers s0))" "history s = history s0"
    using assms(1) by (simp_all add: s0_def checkFakeTimers_safe)
  with runAllImmediates_loop_safe [OF _ loop] show ?thesis
    unfolding s' using fires_below_year_from by blast
qed

lemma runAllTicks_loop_safe:
  "distinct (map fst (timers s)) \<Longrightarrow> runAllTicks_loop p n s = (x, s') \<Longrightarrow>
     distinct (map fst (timers s')) \<and> fires_below_year s s'"
proof (induction n arbitrary: s)
  case 0
  then show ?case by (simp add: fires_below_year_refl)
next
  case (Suc n)
  show ?case
  proof (cases "ticks s")
    case Nil
    with Suc.prems show ?thesis by (simp add: fires_below_year_refl)
  next
    case (Cons tick rest)
    define s1 where "s1 = s\<lparr>ticks := rest\<rparr>"
    have d1: "distinct (map fst (timers s1))" using Suc.prems(1) by (simp add: s1_def)
    have h1: "history s = history s1" by (simp add: s1_def)
    show ?thesis
    proof (cases "uuid tick \<in> cancelledTicks s1")
      case True
      with Suc.prems(2) Cons have "runAllTicks_loop p n s1 = (x, s')"
        by (simp add: s1_def)
      from Suc.IH [OF d1 this] show ?thesis using fires_below_year_from [OF h1] by simp
    next
      case False
      define s2 where "s2 = s1\<lparr>cancelledTicks := insert (uuid tick) (cancelledTicks s1),
                         history := history s1 @ [TickRan (uuid tick)]\<rparr>"
      obtain r s3 where inv: "invoke p (tick_callback tick) s2 = (r, s3)"
        by (cases "invoke p (tick_callback tick) s2")
      have d2: "distinct (map fst (timers s2))" using d1 by (simp add: s2_def)
      have "history s3 = history s @ [TickRan (uuid tick)]"
        using invoke_safe(1) [OF inv] by (simp add: s2_def s1_def)
      then have f3: "fires_below_year s s3"
        by (rule fires_below_yearI) (simp add: fired_below_year_def)
      have d3: "distinct (map fst (timers s3))" by (rule invoke_safe(2) [OF inv d2])
      show ?thesis
      proof (cases r)
        case None
        with Suc.prems(2) Cons False inv have "runAllTicks_loop p n s3 = (x, s')"
          by (simp add: s1_def s2_def Let_def)
        from Suc.IH [OF d3 this] f3 show ?thesis using fires_below_year_trans by blast
      next
        case (Some e)
        with Suc.prems(2) Cons False inv have "s' = s3"
          by (simp add: s1_def s2_def Let_def)
        with d3 f3 show ?thesis by simp
      qed
    qed
  qed
qed

lemma runAllTicks_safe:
  assumes "distinct (map fst (timers s))" "runAllTicks p s = (r, s')"
  shows "distinct (map fst (timers s')) \<and> fires_below_year s s'"
proof -
  define s0 where "s0 = checkFakeTimers s"
  obtain x s1 where loop: "runAllTicks_loop p (maxLoops s0) s0 = (x, s1)"
    by (cases "runAllTicks_loop p (maxLoops s0) s0")
  from assms(2) loop have s': "s' = s1"
    by (cases x) (simp_all add: runAllTicks_def s0_def Let_def)
  have "distinct (map fst (timers s0))" "history s = history s0"
    using assms(1) by (simp_all add: s0_def checkFakeTimers_safe)
  with runAllTicks_loop_safe [OF _ loop] show ?thesis
    unfolding s' using fires_below_year_from by blast
qed

lemma runTimerHandle_safe:
  assumes d: "distinct (map fst (timers s))"
    and near: "\<And>t. map_of (timers s) h = Some t \<Longrightarrow> expiry t < MS_IN_A_YEAR"
    and run: "runTimerHandle p h s = (r, s')"
  shows "distinct (map fst (timers s')) \<and> fires_below_year s s'"
proof (cases "map_of (timers s) h")
  case None
  with run have "s' = s" by (simp add: runTimerHandle_def)
  with d show ?thesis by (simp add: fires_below_year_refl)
next
  case (Some t)
  have ev: "list_all fired_below_year [TimerFired h (expiry t) (now s)]"
    using near [OF Some] by (simp add: fired_below_year_def)
  consider (timeout) "timer_type t = ''timeout''"
    | (interval) "timer_type t \<noteq> ''timeout''" "timer_type t = ''interval''"
    | (other) "timer_type t \<noteq> ''timeout''" "timer_type t \<noteq> ''interval''" by blast
  then show ?thesis
  proof cases
    case timeout
    define s1 where "s1 = s\<lparr>timers := AList.delete h (timers s),
                 history := history s @ [TimerFired h (expiry t) (now s)]\<rparr>"
    from run Some timeout have inv: "invoke p (callback t) s1 = (r, s')"
      by (simp add: runTimerHandle_def s1_def)
    have d1: "distinct (map fst (timers s1))" using d by (simp add: s1_def distinct_delete)
    have "history s' = history s @ [TimerFired h (expiry t) (now s)]"
      using invoke_safe(1) [OF inv] by (simp add: s1_def)
    then have "fires_below_year s s'" using ev by (rule fires_below_yearI)
    with invoke_safe(2) [OF inv d1] show ?thesis by simp
  next
    case interval
    define s1 where "s1 = s\<lparr>timers := AList.update h
                    (t\<lparr>expiry := now s +
                       (case interval t of None \<Rightarrow> 0 | Some i \<Rightarrow> i)\<rparr>) (timers s),
                 history := history s @ [TimerFired h (expiry t) (now s)]\<rparr>"
    from run Some interval have inv: "invoke p (callback t) s1 = (r, s')"
      by (simp add: runTimerHandle_def s1_def)
    have d1: "distinct (map fst (timers s1))" using d by (simp add: s1_def distinct_update)
    have "history s' = history s @ [TimerFired h (expiry t) (now s)]"
      using invoke_safe(1) [OF inv] by (simp add: s1_def)
    then have "fires_below_year s s'" using ev by (rule fires_below_yearI)
    with invoke_safe(2) [OF inv d1] show ?thesis by simp
  next
    case other
    with run Some have "s' = s" by (simp add: runTimerHandle_def)
    with d show ?thesis by (simp add: fires_below_year_refl)
  qed
qed

lemma getNextTimerHandle_near:
  assumes "distinct (map fst (timers s))" "getNextTimerHandle s = Some h"
    "map_of (timers s) h = Some t"
  shows "expiry t < MS_IN_A_YEAR"
proof -
  from getNextTimerHandle_Some [OF assms(2)] obtain ys t' zs where
    split: "timers s = ys @ (h, t') # zs" and near: "expiry t' < MS_IN_A_YEAR" by blast
  from assms(1) split have "distinct (map fst (ys @ (h, t') # zs))" by simp
  from map_of_middle [OF this] split assms(3) have "t = t'" by simp
  with near show ?thesis by simp
qed

lemma timer_step_safe:
  assumes d: "distinct (map fst (timers s))" and h: "getNextTimerHandle s = Some h"
    and run: "and_then
                  (and_then (runTimerHandle p h s)
                     (\<lambda>s1. if immediates s1 \<noteq> [] then runAllImmediates p s1 else (None, s1)))
                  (\<lambda>s2. if ticks s2 \<noteq> [] then runAllTicks p s2 else (None, s2)) = (r, s')"
  shows "distinct (map fst (timers s')) \<and> fires_below_year s s'"
proof -
  obtain r1 s1 where 1: "runTimerHandle p h s = (r1, s1)" by (cases "runTimerHandle p h s")
  from runTimerHandle_safe [OF d _ 1] getNextTimerHandle_near [OF d h]
  have a1: "distinct (map fst (timers s1))" "fires_below_year s s1" by simp_all
  show ?thesis
  proof (cases r1)
    case (Some e)
    with run 1 have "s' = s1" by (simp add: and_then_def)
    with a1 show ?thesis by simp
  next
    case None
    obtain r2 s2 where 2: "(if immediates s1 \<noteq> [] then runAllImmediates p s1 else (None, s1)) = (r2, s2)"
      by (cases "if immediates s1 \<noteq> [] then runAllImmediates p s1 else (None, s1)")
    have a2: "distinct (map fst (timers s2)) \<and> fires_below_year s1 s2"
    proof (cases "immediates s1 \<noteq> []")
      case True
      with 2 have "runAllImmediates p s1 = (r2, s2)" by simp
      from runAllImmediates_safe [OF a1(1) this] show ?thesis .
    next
      case False
      with 2 have "s2 = s1" by simp
      with a1 show ?thesis by (simp add: fires_below_year_refl)
    qed
    show ?thesis
    proof (cases r2)
      case (Some e)
      with run 1 None 2 have "s' = s2" by (simp add: and_then_def)
      with a1 a2 show ?thesis using fires_below_year_trans by blast
    next
      case r2: None
      from run 1 None 2 r2
      have 3: "(if ticks s2 \<noteq> [] then runAllTicks p s2 else (None, s2)) = (r, s')"
        by (simp add: and_then_def)
      have a3: "distinct (map fst (timers s')) \<and> fires_below_year s2 s'"
      proof (cases "ticks s2 \<noteq> []")
        case True
        with 3 have "runAllTicks p s2 = (r, s')" by simp
        from runAllTicks_safe [OF _ this] a2 show ?thesis by simp
      next
        case False
        with 3 have "s' = s2" by simp
        with a2 show ?thesis by (simp add: fires_below_year_refl)
      qed
      with a1 a2 show ?thesis using fires_below_year_trans by blast
    qed
  qed
qed

lemma runAllTimers_loop_safe:
  "distinct (map fst (timers s)) \<Longrightarrow> runAllTimers_loop p n s = (x, s') \<Longrightarrow>
     distinct (map fst (timers s')) \<and> fires_below_year s s'"
proof (induction n arbitrary: s)
  case 0
  then show ?case by (simp add: fires_below_year_refl)
next
  case (Suc n)
  show ?case
  proof (cases "getNextTimerHandle s")
    case None
    with Suc.prems show ?thesis by (simp add: fires_below_year_refl)
  next
    case (Some h)
    obtain r s3 where step: "and_then
                  (and_then (runTimerHandle p h s)
                     (\<lambda>s1. if immediates s1 \<noteq> [] then runAllImmediates p s1 else (None, s1)))
                  (\<lambda>s2. if ticks s2 \<noteq> [] then runAllTicks p s2 else (None, s2)) = (r, s3)"
      by (cases "and_then
                  (and_then (runTimerHandle p h s)
                     (\<lambda>s1. if immediates s1 \<noteq> [] then runAllImmediates p s1 else (None, s1)))
                  (\<lambda>s2. if ticks s2 \<noteq> [] then runAllTicks p s2 else (None, s2))")
    from timer_step_safe [OF Suc.prems(1) Some step]
    have a: "distinct (map fst (timers s3))" "fires_below_year s s3" by simp_all
    show ?thesis
    proof (cases r)
      case None
      with Suc.prems(2) Some step have "runAllTimers_loop p n s3 = (x, s')" by simp
      from Suc.IH [OF a(1) this] a(2) show ?thesis using fires_below_year_trans by blast
    next
      case (Some e)
      with Suc.prems(2) \<open>getNextTimerHandle s = Some h\<close> step have "s' = s3" by simp
      with a show ?thesis by simp
    qed
  qed
qed

lemma runAllTimers_safe:
  assumes d: "distinct (map fst (timers s))" and run: "runAllTimers p s = (r, s')"
  shows "distinct (map fst (timers s')) \<and> fires_below_year s s'"
proof -
  define s0 where "s0 = checkFakeTimers s"
  have d0: "distinct (map fst (timers s0))" and h0: "history s = history s0"
    using d by (simp_all add: s0_def checkFakeTimers_safe)
  obtain r1 s1 where 1: "runAllTicks p s0 = (r1, s1)" by (cases "runAllTicks p s0")
  from runAllTicks_safe [OF d0 1] have a1: "distinct (map fst (timers s1))" "fires_below_year s s1"
    using fires_below_year_from [OF h0] by simp_all
  show ?thesis
  proof (cases r1)
    case (Some e)
    with run 1 have "s' = s1" by (simp add: runAllTimers_def and_then_def s0_def)
    with a1 show ?thesis by simp
  next
    case None
    obtain r2 s2 where 2: "runAllImmediates p s1 = (r2, s2)" by (cases "runAllImmediates p s1")
    from runAllImmediates_safe [OF a1(1) 2] a1(2)
    have a2: "distinct (map fst (timers s2))" "fires_below_year s s2"
      using fires_below_year_trans by blast+
    show ?thesis
    proof (cases r2)
      case (Some e)
      with run 1 None 2 have "s' = s2" by (simp add: runAllTimers_def and_then_def s0_def)
      with a2 show ?thesis by simp
    next
      case r2: None
      obtain x s3 where 3: "runAllTimers_loop p (maxLoops s2) s2 = (x, s3)"
        by (cases "runAllTimers_loop p (maxLoops s2) s2")
      from run 1 None 2 r2 3 have "s' = s3"
        by (cases x) (simp_all add: runAllTimers_def and_then_def s0_def)
      with runAllTimers_loop_safe [OF a2(1) 3] a2(2) show ?thesis
        using fires_below_year_trans by blast
    qed
  qed
qed

lemma advanceTimersByTime_loop_safe:
  "distinct (map fst (timers s)) \<Longrightarrow> advanceTimersByTime_loop p n ms s = (x, s') \<Longrightarrow>
     distinct (map fst (timers s')) \<and> fires_below_year s s'"
proof (induction n arbitrary: s ms)
  case 0
  then show ?case by (simp add: fires_below_year_refl)
next
  case (Suc n)
  show ?case
  proof (cases "getNextTimerHandle s")
    case None
    with Suc.prems show ?thesis by (simp add: fires_below_year_refl)
  next
    case (Some h)
    show ?thesis
    proof (cases "map_of (timers s) h")
      case None
      with Suc.prems Some show ?thesis by (simp add: fires_below_year_refl)
    next
      case tv: (Some timerValue)
      show ?thesis
      proof (cases "now s + ms < expiry timerValue")
        case True
        with Suc.prems(2) Some tv have "s' = s\<lparr>now := now s + ms\<rparr>" by simp
        with Suc.prems(1) show ?thesis by (simp add: fires_below_year_refl)
      next
        case False
        define s1 where "s1 = s\<lparr>now := expiry timerValue\<rparr>"
        obtain r s2 where run: "runTimerHandle p h s1 = (r, s2)"
          by (cases "runTimerHandle p h s1")
        have d1: "distinct (map fst (timers s1))" and h1: "history s = history s1"
          and t1: "map_of (timers s1) h = Some timerValue"
          using Suc.prems(1) tv by (simp_all add: s1_def)
        have near: "expiry timerValue < MS_IN_A_YEAR"
          by (rule getNextTimerHandle_near [OF Suc.prems(1) Some tv])
        from runTimerHandle_safe [OF d1 _ run] t1 near
        have a: "distinct (map fst (timers s2))" "fires_below_year s s2"
          using fires_below_year_from [OF h1] by simp_all
        show ?thesis
        proof (cases r)
          case None
          with Suc.prems(2) Some tv False run
          have "advanceTimersByTime_loop p n (ms - (expiry timerValue - now s)) s2 = (x, s')"
            by (simp add: s1_def)
          from Suc.IH [OF a(1) this] a(2) show ?thesis using fires_below_year_trans by blast
        next
          case (Some e)
          with Suc.prems(2) \<open>getNextTimerHandle s = Some h\<close> tv False run have "s' = s2"
            by (simp add: s1_def)
          with a show ?thesis by simp
        qed
      qed
    qed
  qed
qed

lemma advanceTimersByTime_safe:
  assumes "distinct (map fst (timers s))" "advanceTimersByTime p ms s = (r, s')"
  shows "distinct (map fst (timers s')) \<and> fires_below_year s s'"
proof -
  define s0 where "s0 = checkFakeTimers s"
  obtain x s1 where loop: "advanceTimersByTime_loop p (maxLoops s0) ms s0 = (x, s1)"
    by (cases "advanceTimersByTime_loop p (maxLoops s0) ms s0")
  from assms(2) loop have s': "s' = s1"
    by (cases x) (simp_all add: advanceTimersByTime_def s0_def Let_def)
  have "distinct (map fst (timers s0))" "history s = history s0"
    using assms(1) by (simp_all add: s0_def checkFakeTimers_safe)
  with advanceTimersByTime_loop_safe [OF _ loop] show ?thesis
    unfolding s' using fires_below_year_from by blast
qed

lemma advanceTimersToNextTimer_safe:
  "distinct (map fst (timers s)) \<Longrightarrow> advanceTimersToNextTimer p steps s = (r, s') \<Longrightarrow>
     distinct (map fst (timers s')) \<and> fires_below_year s s'"
proof (induction p steps s rule: advanceTimersToNextTimer.induct)
  case (1 p steps s)
  show ?case
  proof (cases "steps < 1")
    case True
    with "1.prems" show ?thesis by (simp add: fires_below_year_refl)
  next
    case False
    show ?thesis
    proof (cases "foldl min_expiry None (timers s)")
      case None
      with "1.prems" False show ?thesis by (simp add: fires_below_year_refl)
    next
      case (Some nextExpiry)
      obtain r1 s1 where adv: "advanceTimersByTime p (nextExpiry - now s) s = (r1, s1)"
        by (cases "advanceTimersByTime p (nextExpiry - now s) s")
      from advanceTimersByTime_safe [OF "1.prems"(1) adv]
      have a: "distinct (map fst (timers s1))" "fires_below_year s s1" by simp_all
      show ?thesis
      proof (cases r1)
        case None
        with "1.prems"(2) False Some adv
        have rec: "advanceTimersToNextTimer p (steps - 1) s1 = (r, s')" by simp
        from "1.IH" [OF False Some adv [symmetric] None a(1) rec] a(2)
        show ?thesis using fires_below_year_trans by blast
      next
        case e: (Some e)
        with "1.prems"(2) False Some adv have "s' = s1" by simp
        with a show ?thesis by simp
      qed
    qed
  qed
qed

lemma far_interval_eq:
  "far_interval = (fresh None)\<lparr>uuidCounter := 2,
     timers := [(1, \<lparr>timer_type = ''interval'', callback = 0, expiry = 31536000000,
                     interval = Some 31536000000\<rparr>)]\<rparr>"
  by (simp add: far_interval_def fakeSetInterval_def fresh_fields Let_def)

lemma far_interval_untouched:
  "runAllTimers quiet far_interval = (None, far_interval)"
  "advanceTimersByTime quiet 40000000000 far_interval = (None, far_interval)"
  "fst (getTimerCount far_interval) = 1"
  unfolding far_interval_eq
  by (simp_all add: drain_defs loop_pos fresh_fields quiet_def Let_def getTimerCount_def)

lemma getNextTimerHandle_skips_far:
  assumes "(h, t) \<in> set (timers s)" "MS_IN_A_YEAR \<le> expiry t" "distinct (map fst (timers s))"
  shows "getNextTimerHandle s \<noteq> Some h"
proof
  assume sel: "getNextTimerHandle s = Some h"
  from assms(1,3) have "map_of (timers s) h = Some t" by simp
  from getNextTimerHandle_near [OF assms(3) sel this] assms(2) show False by simp
qed

text \<open>
  C10: on a map with distinct keys, the next-timer search never returns the handle of a
  stored timer whose expiry is \<open>MS_IN_A_YEAR\<close> or more, and every timer that \<open>runAllTimers\<close>,
  \<open>advanceTimersByTime\<close> or \<open>advanceTimersToNextTimer\<close> fires had an expiry below
  \<open>MS_IN_A_YEAR\<close> when it fired, whatever the callbacks do; \<open>getTimerCount()\<close> counts
  every stored timer all the same. An interval of exactly \<open>MS_IN_A_YEAR\<close> is left in
  place by a full drain and by an advance of more than a year, and is counted.
\<close>

theorem far_timers_never_fire:
  "((h, t) \<in> set (timers s) \<and> MS_IN_A_YEAR \<le> expiry t \<and> distinct (map fst (timers s)) \<longrightarrow>
      getNextTimerHandle s \<noteq> Some h) \<and>
   (distinct (map fst (timers s)) \<longrightarrow>
      fires_below_year s (snd (runAllTimers p s)) \<and>
      fires_below_year s (snd (advanceTimersByTime p ms s)) \<and>
      fires_below_year s (snd (advanceTimersToNextTimer p steps s))) \<and>
   fst (getTimerCount s) = length (timers s) + length (immediates s) + length (ticks s) \<and>
   runAllTimers quiet far_interval = (None, far_interval) \<and>
   advanceTimersByTime quiet 40000000000 far_interval = (None, far_interval) \<and>
   fst (getTimerCount far_interval) = 1"
proof -
  have a: "(h, t) \<in> set (timers s) \<and> MS_IN_A_YEAR \<le> expiry t \<and> distinct (map fst (timers s)) \<longrightarrow>
      getNextTimerHandle s \<noteq> Some h"
    using getNextTimerHandle_skips_far by blast
  have b: "fires_below_year s (snd (runAllTimers p s))" if "distinct (map fst (timers s))"
    using runAllTimers_safe [OF that, of p "fst (runAllTimers p s)" "snd (runAllTimers p s)"]
    by simp
  have c: "fires_below_year s (snd (advanceTimersByTime p ms s))" if "distinct (map fst (timers s))"
    using advanceTimersByTime_safe [OF that, of p ms "fst (advanceTimersByTime p ms s)"
        "snd (advanceTimersByTime p ms s)"]
    by simp
  have d: "fires_below_year s (snd (advanceTimersToNextTimer p steps s))"
    if "distinct (map fst (timers s))"
    using advanceTimersToNextTimer_safe [OF that, of p steps
        "fst (advanceTimersToNextTimer p steps s)" "snd (advanceTimersToNextTimer p steps s)"]
    by simp
  have e: "fst (getTimerCount s) = length (timers s) + length (immediates s) + length (ticks s)"
    by (simp add: getTimerCount_def)
  from a b c d e far_interval_untouched show ?thesis by blast
qed

theorem far_timers_never_fire_witness:
  "(1, \<lparr>timer_type = ''interval'', callback = 0, expiry = 31536000000,
         interval = Some 31536000000\<rparr>) \<in> set (timers far_interval) \<and>
   MS_IN_A_YEAR \<le> 31536000000 \<and>
   distinct (map fst (timers far_interval)) \<and>
   getNextTimerHandle far_interval \<noteq> Some 1 \<and>
   fires_below_year far_interval (snd (advanceTimersToNextTimer quiet 1 far_interval))"
proof -
  have m: "(1, \<lparr>timer_type = ''interval'', callback = 0, expiry = 31536000000,
         interval = Some 31536000000\<rparr>) \<in> set (timers far_interval)"
    and d: "distinct (map fst (timers far_interval))"
    unfolding far_interval_eq by simp_all
  have y: "MS_IN_A_YEAR \<le> 31536000000" by (simp add: MS_IN_A_YEAR_def)
  from far_timers_never_fire [of 1 "\<lparr>timer_type = ''interval'', callback = 0,
      expiry = 31536000000, interval = Some 31536000000\<rparr>" far_interval quiet 0 1] m d y
  show ?thesis by simp
qed

subsection \<open>Callbacks and the timers stored before them\<close>


















subsection \<open>\<open>runOnlyPendingTimers\<close> works from a snapshot\<close>





subsection \<open>Nothing grows on a disposed scheduler\<close>

lemma stays_disposed_refl:
  "disposed s' \<Longrightarrow> timers s' = timers s \<Longrightarrow> immediates s' = immediates s \<Longrightarrow>
   ticks s' = ticks s \<Longrightarrow> stays_disposed s s'"
  by (simp add: stays_disposed_def)

lemma stays_disposed_trans:
  "stays_disposed a b \<Longrightarrow> stays_disposed b c \<Longrightarrow> stays_disposed a c"
  by (auto simp add: stays_disposed_def)

lemma stays_disposed_from:
  "length (timers b) \<le> length (timers a) \<Longrightarrow> length (immediates b) \<le> length (immediates a) \<Longrightarrow>
   length (ticks b) \<le> length (ticks a) \<Longrightarrow> stays_disposed b c \<Longrightarrow> stays_disposed a c"
  by (auto simp add: stays_disposed_def)

lemma exec_cmd_disposed:
  "disposed s \<Longrightarrow> stays_disposed s (snd (exec_cmd c s))"
  by (cases c)
    (simp_all add: stays_disposed_def fake_defs discard_def Let_def length_delete_le
      split: option.splits)

lemma exec_cmds_disposed:
  "disposed s \<Longrightarrow> stays_disposed s (snd (exec_cmds cs s))"
proof (induction cs arbitrary: s)
  case Nil
  then show ?case by (simp add: stays_disposed_refl)
next
  case (Cons c cs)
  obtain r s1 where c: "exec_cmd c s = (r, s1)" by (cases "exec_cmd c s")
  from exec_cmd_disposed [OF Cons.prems, of c] c have 1: "stays_disposed s s1" by simp
  then have d1: "disposed s1" by (simp add: stays_disposed_def)
  show ?case
  proof (cases r)
    case None
    with c have e: "exec_cmds (c # cs) s = exec_cmds cs s1" by simp
    from stays_disposed_trans [OF 1 Cons.IH [OF d1]] show ?thesis unfolding e .
  next
    case (Some e)
    with c have "exec_cmds (c # cs) s = (Some e, s1)" by simp
    with 1 show ?thesis by simp
  qed
qed

lemma invoke_disposed:
  "disposed s \<Longrightarrow> invoke p cb s = (r, s') \<Longrightarrow> stays_disposed s s'"
  using exec_cmds_disposed [of s "p cb"] by (simp add: invoke_def)

lemma runImmediate_disposed:
  assumes "disposed s" "runImmediate p i s = (r, s')"
  shows "stays_disposed s s'"
proof -
  define s1 where "s1 = s\<lparr>history := history s @ [ImmediateRan (uuid i)]\<rparr>"
  obtain r2 s2 where inv: "invoke p (tick_callback i) s1 = (r2, s2)"
    by (cases "invoke p (tick_callback i) s1")
  from assms(2) inv have s': "s' = fakeClearImmediate (uuid i) s2"
    by (simp add: runImmediate_def s1_def)
  have "disposed s1" using assms(1) by (simp add: s1_def)
  from invoke_disposed [OF this inv] have 2: "stays_disposed s s2"
    by (simp add: stays_disposed_def s1_def)
  have "length (filter (\<lambda>j. uuid j \<noteq> uuid i) (immediates s2)) \<le> length (immediates s)"
    using 2 length_filter_le [of "\<lambda>j. uuid j \<noteq> uuid i" "immediates s2"]
    unfolding stays_disposed_def by linarith
  with 2 show ?thesis
    unfolding s' stays_disposed_def fakeClearImmediate_def by simp
qed

lemma runAllImmediates_loop_disposed:
  "disposed s \<Longrightarrow> runAllImmediates_loop p n s = (x, s') \<Longrightarrow> stays_disposed s s'"
proof (induction n arbitrary: s)
  case 0
  then show ?case by (simp add: stays_disposed_refl)
next
  case (Suc n)
  show ?case
  proof (cases "immediates s")
    case Nil
    with Suc.prems show ?thesis by (simp add: stays_disposed_refl)
  next
    case (Cons i rest)
    define s1 where "s1 = s\<lparr>immediates := rest\<rparr>"
    obtain r s2 where run: "runImmediate p i s1 = (r, s2)" by (cases "runImmediate p i s1")
    have d1: "disposed s1" using Suc.prems(1) by (simp add: s1_def)
    from runImmediate_disposed [OF d1 run] have 2: "stays_disposed s s2"
      by (rule stays_disposed_from [rotated 3]) (simp_all add: s1_def Cons)
    then have d2: "disposed s2" by (simp add: stays_disposed_def)
    show ?thesis
    proof (cases r)
      case None
      with Suc.prems(2) Cons run have "runAllImmediates_loop p n s2 = (x, s')"
        by (simp add: s1_def)
      from stays_disposed_trans [OF 2 Suc.IH [OF d2 this]] show ?thesis .
    next
      case (Some e)
      with Suc.prems(2) Cons run have "s' = s2" by (simp add: s1_def)
      with 2 show ?thesis by simp
    qed
  qed
qed

lemma checkFakeTimers_disposed:
  "disposed s \<Longrightarrow> stays_disposed s (checkFakeTimers s)"
  by (simp add: stays_disposed_def checkFakeTimers_fields)

lemma runAllImmediates_disposed:
  assumes "disposed s" "runAllImmediates p s = (r, s')"
  shows "stays_disposed s s'"
proof -
  define s0 where "s0 = checkFakeTimers s"
  obtain x s1 where loop: "runAllImmediates_loop p (maxLoops s0) s0 = (x, s1)"
    by (cases "runAllImmediates_loop p (maxLoops s0) s0")
  from assms(2) loop have s': "s' = s1"
    by (cases x) (simp_all add: runAllImmediates_def s0_def Let_def)
  have 0: "stays_disposed s s0" unfolding s0_def by (rule checkFakeTimers_disposed [OF assms(1)])
  then have "disposed s0" by (simp add: stays_disposed_def)
  from stays_disposed_trans [OF 0 runAllImmediates_loop_disposed [OF this loop]]
  show ?thesis unfolding s' .
qed

lemma runAllTicks_loop_disposed:
  "disposed s \<Longrightarrow> runAllTicks_loop p n s = (x, s') \<Longrightarrow> stays_disposed s s'"
proof (induction n arbitrary: s)
  case 0
  then show ?case by (simp add: stays_disposed_refl)
next
  case (Suc n)
  show ?case
  proof (cases "ticks s")
    case Nil
    with Suc.prems show ?thesis by (simp add: stays_disposed_refl)
  next
    case (Cons tick rest)
    define s1 where "s1 = s\<lparr>ticks := rest\<rparr>"
    have d1: "disposed s1" using Suc.prems(1) by (simp add: s1_def)
    have 1: "stays_disposed s s1" using Suc.prems(1) by (simp add: stays_disposed_def s1_def Cons)
    show ?thesis
    proof (cases "uuid tick \<in> cancelledTicks s1")
      case True
      with Suc.prems(2) Cons have "runAllTicks_loop p n s1 = (x, s')"
        by (simp add: s1_def)
      from stays_disposed_trans [OF 1 Suc.IH [OF d1 this]] show ?thesis .
    next
      case False
      define s2 where "s2 = s1\<lparr>cancelledTicks := insert (uuid tick) (cancelledTicks s1),
                         history := history s1 @ [TickRan (uuid tick)]\<rparr>"
      obtain r s3 where inv: "invoke p (tick_callback tick) s2 = (r, s3)"
        by (cases "invoke p (tick_callback tick) s2")
      have d2: "disposed s2" using d1 by (simp add: s2_def)
      from invoke_disposed [OF d2 inv] have "stays_disposed s1 s3"
        by (simp add: stays_disposed_def s2_def)
      with 1 have 3: "stays_disposed s s3" by (rule stays_disposed_trans)
      then have d3: "disposed s3" by (simp add: stays_disposed_def)
      show ?thesis
      proof (cases r)
        case None
        with Suc.prems(2) Cons False inv have "runAllTicks_loop p n s3 = (x, s')"
          by (simp add: s1_def s2_def Let_def)
        from stays_disposed_trans [OF 3 Suc.IH [OF d3 this]] show ?thesis .
      next
        case (Some e)
        with Suc.prems(2) Cons False inv have "s' = s3"
          by (simp add: s1_def s2_def Let_def)
        with 3 show ?thesis by simp
      qed
    qed
  qed
qed

lemma runAllTicks_disposed:
  assumes "disposed s" "runAllTicks p s = (r, s')"
  shows "stays_disposed s s'"
proof -
  define s0 where "s0 = checkFakeTimers s"
  obtain x s1 where loop: "runAllTicks_loop p (maxLoops s0) s0 = (x, s1)"
    by (cases "runAllTicks_loop p (maxLoops s0) s0")
  from assms(2) loop have s': "s' = s1"
    by (cases x) (simp_all add: runAllTicks_def s0_def Let_def)
  have 0: "stays_disposed s s0" unfolding s0_def by (rule checkFakeTimers_disposed [OF assms(1)])
  then have "disposed s0" by (simp add: stays_disposed_def)
  from stays_disposed_trans [OF 0 runAllTicks_loop_disposed [OF this loop]]
  show ?thesis unfolding s' .
qed

lemma length_update_present:
  "map_of al k = Some v \<Longrightarrow> length (AList.update k w al) = length al"
  by (induction al) (auto split: if_splits)

lemma runTimerHandle_disposed:
  assumes d: "disposed s" and run: "runTimerHandle p h s = (r, s')"
  shows "stays_disposed s s'"
proof (cases "map_of (timers s) h")
  case None
  with run have "s' = s" by (simp add: runTimerHandle_def)
  with d show ?thesis by (simp add: stays_disposed_refl)
next
  case (Some t)
  consider (timeout) "timer_type t = ''timeout''"
    | (interval) "timer_type t \<noteq> ''timeout''" "timer_type t = ''interval''"
    | (other) "timer_type t \<noteq> ''timeout''" "timer_type t \<noteq> ''interval''" by blast
  then show ?thesis
  proof cases
    case timeout
    define s1 where "s1 = s\<lparr>timers := AList.delete h (timers s),
                 history := history s @ [TimerFired h (expiry t) (now s)]\<rparr>"
    from run Some timeout have inv: "invoke p (callback t) s1 = (r, s')"
      by (simp add: runTimerHandle_def s1_def)
    have "disposed s1" using d by (simp add: s1_def)
    from invoke_disposed [OF this inv] show ?thesis
      by (rule stays_disposed_from [rotated 3]) (simp_all add: s1_def length_delete_le)
  next
    case interval
    define s1 where "s1 = s\<lparr>timers := AList.update h
                    (t\<lparr>expiry := now s +
                       (case interval t of None \<Rightarrow> 0 | Some i \<Rightarrow> i)\<rparr>) (timers s),
                 history := history s @ [TimerFired h (expiry t) (now s)]\<rparr>"
    from run Some interval have inv: "invoke p (callback t) s1 = (r, s')"
      by (simp add: runTimerHandle_def s1_def)
    have "disposed s1" using d by (simp add: s1_def)
    from invoke_disposed [OF this inv] show ?thesis
      by (rule stays_disposed_from [rotated 3])
        (simp_all add: s1_def length_update_present [OF Some])
  next
    case other
    with run Some have "s' = s" by (simp add: runTimerHandle_def)
    with d show ?thesis by (simp add: stays_disposed_refl)
  qed
qed

lemma timer_step_disposed:
  assumes d: "disposed s"
    and run: "and_then
                  (and_then (runTimerHandle p h s)
                     (\<lambda>s1. if immediates s1 \<noteq> [] then runAllImmediates p s1 else (None, s1)))
                  (\<lambda>s2. if ticks s2 \<noteq> [] then runAllTicks p s2 else (None, s2)) = (r, s')"
  shows "stays_disposed s s'"
proof -
  obtain r1 s1 where 1: "runTimerHandle p h s = (r1, s1)" by (cases "runTimerHandle p h s")
  from runTimerHandle_disposed [OF d 1] have a1: "stays_disposed s s1" .
  then have d1: "disposed s1" by (simp add: stays_disposed_def)
  show ?thesis
  proof (cases r1)
    case (Some e)
    with run 1 have "s' = s1" by (simp add: and_then_def)
    with a1 show ?thesis by simp
  next
    case None
    obtain r2 s2 where 2: "(if immediates s1 \<noteq> [] then runAllImmediates p s1 else (None, s1)) = (r2, s2)"
      by (cases "if immediates s1 \<noteq> [] then runAllImmediates p s1 else (None, s1)")
    have "stays_disposed s1 s2"
    proof (cases "immediates s1 \<noteq> []")
      case True
      with 2 have "runAllImmediates p s1 = (r2, s2)" by simp
      from runAllImmediates_disposed [OF d1 this] show ?thesis .
    next
      case False
      with 2 have "s2 = s1" by simp
      with d1 show ?thesis by (simp add: stays_disposed_refl)
    qed
    with a1 have a2: "stays_disposed s s2" by (rule stays_disposed_trans)
    then have d2: "disposed s2" by (simp add: stays_disposed_def)
    show ?thesis
    proof (cases r2)
      case (Some e)
      with run 1 None 2 have "s' = s2" by (simp add: and_then_def)
      with a2 show ?thesis by simp
    next
      case r2: None
      from run 1 None 2 r2
      have 3: "(if ticks s2 \<noteq> [] then runAllTicks p s2 else (None, s2)) = (r, s')"
        by (simp add: and_then_def)
      have "stays_disposed s2 s'"
      proof (cases "ticks s2 \<noteq> []")
        case True
        with 3 have "runAllTicks p s2 = (r, s')" by simp
        from runAllTicks_disposed [OF d2 this] show ?thesis .
      next
        case False
        with 3 have "s' = s2" by simp
        with d2 show ?thesis by (simp add: stays_disposed_refl)
      qed
      with a2 show ?thesis by (rule stays_disposed_trans)
    qed
  qed
qed

lemma runAllTimers_loop_disposed:
  "disposed s \<Longrightarrow> runAllTimers_loop p n s = (x, s') \<Longrightarrow> stays_disposed s s'"
proof (induction n arbitrary: s)
  case 0
  then show ?case by (simp add: stays_disposed_refl)
next
  case (Suc n)
  show ?case
  proof (cases "getNextTimerHandle s")
    case None
    with Suc.prems show ?thesis by (simp add: stays_disposed_refl)
  next
    case (Some h)
    obtain r s3 where step: "and_then
                  (and_then (runTimerHandle p h s)
                     (\<lambda>s1. if immediates s1 \<noteq> [] then runAllImmediates p s1 else (None, s1)))
                  (\<lambda>s2. if ticks s2 \<noteq> [] then runAllTicks p s2 else (None, s2)) = (r, s3)"
      by (cases "and_then
                  (and_then (runTimerHandle p h s)
                     (\<lambda>s1. if immediates s1 \<noteq> [] then runAllImmediates p s1 else (None, s1)))
                  (\<lambda>s2. if ticks s2 \<noteq> [] then runAllTicks p s2 else (None, s2))")
    from timer_step_disposed [OF Suc.prems(1) step] have a: "stays_disposed s s3" .
    then have d3: "disposed s3" by (simp add: stays_disposed_def)
    show ?thesis
    proof (cases r)
      case None
      with Suc.prems(2) Some step have "runAllTimers_loop p n s3 = (x, s')" by simp
      from stays_disposed_trans [OF a Suc.IH [OF d3 this]] show ?thesis .
    next
      case (Some e)
      with Suc.prems(2) \<open>getNextTimerHandle s = Some h\<close> step have "s' = s3" by simp
      with a show ?thesis by simp
    qed
  qed
qed

lemma runAllTimers_disposed:
  assumes d: "disposed s" and run: "runAllTimers p s = (r, s')"
  shows "stays_disposed s s'"
proof -
  define s0 where "s0 = checkFakeTimers s"
  have a0: "stays_disposed s s0" unfolding s0_def by (rule checkFakeTimers_disposed [OF d])
  then have d0: "disposed s0" by (simp add: stays_disposed_def)
  obtain r1 s1 where 1: "runAllTicks p s0 = (r1, s1)" by (cases "runAllTicks p s0")
  from stays_disposed_trans [OF a0 runAllTicks_disposed [OF d0 1]]
  have a1: "stays_disposed s s1" .
  then have d1: "disposed s1" by (simp add: stays_disposed_def)
  show ?thesis
  proof (cases r1)
    case (Some e)
    with run 1 have "s' = s1" by (simp add: runAllTimers_def and_then_def s0_def)
    with a1 show ?thesis by simp
  next
    case None
    obtain r2 s2 where 2: "runAllImmediates p s1 = (r2, s2)" by (cases "runAllImmediates p s1")
    from stays_disposed_trans [OF a1 runAllImmediates_disposed [OF d1 2]]
    have a2: "stays_disposed s s2" .
    then have d2: "disposed s2" by (simp add: stays_disposed_def)
    show ?thesis
    proof (cases r2)
      case (Some e)
      with run 1 None 2 have "s' = s2" by (simp add: runAllTimers_def and_then_def s0_def)
      with a2 show ?thesis by simp
    next
      case r2: None
      obtain x s3 where 3: "runAllTimers_loop p (maxLoops s2) s2 = (x, s3)"
        by (cases "runAllTimers_loop p (maxLoops s2) s2")
      from run 1 None 2 r2 3 have "s' = s3"
        by (cases x) (simp_all add: runAllTimers_def and_then_def s0_def)
      with stays_disposed_trans [OF a2 runAllTimers_loop_disposed [OF d2 3]] show ?thesis
        by simp
    qed
  qed
qed

lemma forEach_disposed:
  assumes step: "\<And>x s r s'. disposed s \<Longrightarrow> f x s = (r, s') \<Longrightarrow> stays_disposed s s'"
  shows "disposed s \<Longrightarrow> forEach f xs s = (r, s') \<Longrightarrow> stays_disposed s s'"
proof (induction xs arbitrary: s)
  case Nil
  then show ?case by (simp add: stays_disposed_refl)
next
  case (Cons x xs)
  obtain r1 s1 where 1: "f x s = (r1, s1)" by (cases "f x s")
  from step [OF Cons.prems(1) 1] have a: "stays_disposed s s1" .
  then have d1: "disposed s1" by (simp add: stays_disposed_def)
  show ?case
  proof (cases r1)
    case None
    with Cons.prems(2) 1 have "forEach f xs s1 = (r, s')" by simp
    from stays_disposed_trans [OF a Cons.IH [OF d1 this]] show ?thesis .
  next
    case (Some e)
    with Cons.prems(2) 1 have "s' = s1" by simp
    with a show ?thesis by simp
  qed
qed

lemma runOnlyPendingTimers_disposed:
  assumes d: "disposed s" and run: "runOnlyPendingTimers p s = (r, s')"
  shows "stays_disposed s s'"
proof -
  define s0 where "s0 = checkFakeTimers s"
  have a0: "stays_disposed s s0" unfolding s0_def by (rule checkFakeTimers_disposed [OF d])
  then have d0: "disposed s0" by (simp add: stays_disposed_def)
  obtain r1 s1 where 1: "forEach (runImmediate p) (immediates s0) s0 = (r1, s1)"
    by (cases "forEach (runImmediate p) (immediates s0) s0")
  from forEach_disposed [of "runImmediate p", OF runImmediate_disposed d0 1]
  have "stays_disposed s0 s1" .
  with a0 have a1: "stays_disposed s s1" by (rule stays_disposed_trans)
  then have d1: "disposed s1" by (simp add: stays_disposed_def)
  show ?thesis
  proof (cases r1)
    case (Some e)
    with run 1 have "s' = s1"
      by (simp add: runOnlyPendingTimers_def Let_def and_then_def s0_def [symmetric])
    with a1 show ?thesis by simp
  next
    case None
    with run 1 have 2: "forEach (\<lambda>e. runTimerHandle p (fst e))
        (sort_key (\<lambda>e. expiry (snd e)) (timers s)) s1 = (r, s')"
      by (simp add: runOnlyPendingTimers_def Let_def and_then_def s0_def [symmetric])
    from forEach_disposed [of "\<lambda>e. runTimerHandle p (fst e)", OF runTimerHandle_disposed d1 2]
    have "stays_disposed s1 s'" .
    with a1 show ?thesis by (rule stays_disposed_trans)
  qed
qed

lemma advanceTimersByTime_loop_disposed:
  "disposed s \<Longrightarrow> advanceTimersByTime_loop p n ms s = (x, s') \<Longrightarrow> stays_disposed s s'"
proof (induction n arbitrary: s ms)
  case 0
  then show ?case by (simp add: stays_disposed_refl)
next
  case (Suc n)
  show ?case
  proof (cases "getNextTimerHandle s")
    case None
    with Suc.prems show ?thesis by (simp add: stays_disposed_refl)
  next
    case (Some h)
    show ?thesis
    proof (cases "map_of (timers s) h")
      case None
      with Suc.prems Some show ?thesis by (simp add: stays_disposed_refl)
    next
      case tv: (Some timerValue)
      show ?thesis
      proof (cases "now s + ms < expiry timerValue")
        case True
        with Suc.prems(2) Some tv have "s' = s\<lparr>now := now s + ms\<rparr>" by simp
        with Suc.prems(1) show ?thesis by (simp add: stays_disposed_def)
      next
        case False
        define s1 where "s1 = s\<lparr>now := expiry timerValue\<rparr>"
        obtain r s2 where run: "runTimerHandle p h s1 = (r, s2)"
          by (cases "runTimerHandle p h s1")
        have d1: "disposed s1" using Suc.prems(1) by (simp add: s1_def)
        from runTimerHandle_disposed [OF d1 run] have a: "stays_disposed s s2"
          by (simp add: stays_disposed_def s1_def)
        then have d2: "disposed s2" by (simp add: stays_disposed_def)
        show ?thesis
        proof (cases r)
          case None
          with Suc.prems(2) Some tv False run
          have "advanceTimersByTime_loop p n (ms - (expiry timerValue - now s)) s2 = (x, s')"
            by (simp add: s1_def)
          from stays_disposed_trans [OF a Suc.IH [OF d2 this]] show ?thesis .
        next
          case (Some e)
          with Suc.prems(2) \<open>getNextTimerHandle s = Some h\<close> tv False run have "s' = s2"
            by (simp add: s1_def)
          with a show ?thesis by simp
        qed
      qed
    qed
  qed
qed

lemma advanceTimersByTime_disposed:
  assumes "disposed s" "advanceTimersByTime p ms s = (r, s')"
  shows "stays_disposed s s'"
proof -
  define s0 where "s0 = checkFakeTimers s"
  obtain x s1 where loop: "advanceTimersByTime_loop p (maxLoops s0) ms s0 = (x, s1)"
    by (cases "advanceTimersByTime_loop p (maxLoops s0) ms s0")
  from assms(2) loop have s': "s' = s1"
    by (cases x) (simp_all add: advanceTimersByTime_def s0_def Let_def)
  have 0: "stays_disposed s s0" unfolding s0_def by (rule checkFakeTimers_disposed [OF assms(1)])
  then have "disposed s0" by (simp add: stays_disposed_def)
  from stays_disposed_trans [OF 0 advanceTimersByTime_loop_disposed [OF this loop]]
  show ?thesis unfolding s' .
qed

lemma advanceTimersToNextTimer_disposed:
  "disposed s \<Longrightarrow> advanceTimersToNextTimer p steps s = (r, s') \<Longrightarrow> stays_disposed s s'"
proof (induction p steps s rule: advanceTimersToNextTimer.induct)
  case (1 p steps s)
  show ?case
  proof (cases "steps < 1")
    case True
    with "1.prems" show ?thesis by (simp add: stays_disposed_refl)
  next
    case False
    show ?thesis
    proof (cases "foldl min_expiry None (timers s)")
      case None
      with "1.prems" False show ?thesis by (simp add: stays_disposed_refl)
    next
      case (Some nextExpiry)
      obtain r1 s1 where adv: "advanceTimersByTime p (nextExpiry - now s) s = (r1, s1)"
        by (cases "advanceTimersByTime p (nextExpiry - now s) s")
      from advanceTimersByTime_disposed [OF "1.prems"(1) adv] have a: "stays_disposed s s1" .
      then have d1: "disposed s1" by (simp add: stays_disposed_def)
      show ?thesis
      proof (cases r1)
        case None
        with "1.prems"(2) False Some adv
        have rec: "advanceTimersToNextTimer p (steps - 1) s1 = (r, s')" by simp
        from stays_disposed_trans [OF a "1.IH" [OF False Some adv [symmetric] None d1 rec]]
        show ?thesis .
      next
        case e: (Some e)
        with "1.prems"(2) False Some adv have "s' = s1" by simp
        with a show ?thesis by simp
      qed
    qed
  qed
qed

text \<open>
  C3, as stated, fails: \<open>dispose()\<close> clears through \<open>clearAllTimers()\<close>,
  which leaves the tick sequence, so a tick pending at the time stays and
  \<open>getTimerCount()\<close> is 1.
\<close>

theorem dispose_keeps_ticks:
  "fst (getTimerCount (dispose (snd (fakeNextTick 0 (fresh None))))) = 1"
  by (simp add: getTimerCount_def dispose_def clearAllTimers_def fakeNextTick_def fresh_fields)

text \<open>
  C3, amended: \<open>dispose()\<close> sets the disposed flag, empties the timer map and the
  immediate sequence and keeps the tick sequence, so \<open>getTimerCount()\<close> is then the
  number of ticks that were pending. On every disposed scheduler the fake \<open>setTimeout\<close>,
  \<open>setInterval\<close>, \<open>setImmediate\<close> and \<open>requestAnimationFrame\<close> return null and the
  fake \<open>nextTick\<close> returns nothing, each leaving the whole state as it was; and after
  any callback or any drain the scheduler is still disposed and none of the three
  containers is longer than before.
\<close>

theorem dispose_effect:
  "disposed (dispose s) \<and>
   timers (dispose s) = [] \<and> immediates (dispose s) = [] \<and> ticks (dispose s) = ticks s \<and>
   fst (getTimerCount (dispose s)) = length (ticks s) \<and>
   (disposed t \<longrightarrow>
      fakeSetTimeout cb delay t = (Inr None, t) \<and>
      fakeSetInterval cb intervalDelay t = (None, t) \<and>
      fakeSetImmediate cb t = (Inr None, t) \<and>
      fakeNextTick cb t = (None, t) \<and>
      fakeRequestAnimationFrame cb t = (Inr None, t) \<and>
      stays_disposed t (snd (invoke p cb t)) \<and>
      stays_disposed t (snd (runAllTicks p t)) \<and>
      stays_disposed t (snd (runAllImmediates p t)) \<and>
      stays_disposed t (snd (runAllTimers p t)) \<and>
      stays_disposed t (snd (runOnlyPendingTimers p t)) \<and>
      stays_disposed t (snd (advanceTimersByTime p ms t)) \<and>
      stays_disposed t (snd (advanceTimersToNextTimer p steps t)))"
proof -
  have a: "disposed (dispose s) \<and>
   timers (dispose s) = [] \<and> immediates (dispose s) = [] \<and> ticks (dispose s) = ticks s \<and>
   fst (getTimerCount (dispose s)) = length (ticks s)"
    by (simp add: dispose_def clearAllTimers_def getTimerCount_def)
  have b: "fakeSetTimeout cb delay t = (Inr None, t) \<and>
      fakeSetInterval cb intervalDelay t = (None, t) \<and>
      fakeSetImmediate cb t = (Inr None, t) \<and>
      fakeNextTick cb t = (None, t) \<and>
      fakeRequestAnimationFrame cb t = (Inr None, t)" if "disposed t"
    using that by (simp add: fake_defs)
  have c: "stays_disposed t (snd (invoke p cb t))" if "disposed t"
    using invoke_disposed [OF that, of p cb "fst (invoke p cb t)" "snd (invoke p cb t)"] by simp
  have d: "stays_disposed t (snd (runAllTicks p t))" if "disposed t"
    using runAllTicks_disposed [OF that, of p "fst (runAllTicks p t)" "snd (runAllTicks p t)"]
    by simp
  have e: "stays_disposed t (snd (runAllImmediates p t))" if "disposed t"
    using runAllImmediates_disposed [OF that, of p "fst (runAllImmediates p t)"
        "snd (runAllImmediates p t)"] by simp
  have f: "stays_disposed t (snd (runAllTimers p t))" if "disposed t"
    using runAllTimers_disposed [OF that, of p "fst (runAllTimers p t)" "snd (runAllTimers p t)"]
    by simp
  have g: "stays_disposed t (snd (runOnlyPendingTimers p t))" if "disposed t"
    using runOnlyPendingTimers_disposed [OF that, of p "fst (runOnlyPendingTimers p t)"
        "snd (runOnlyPendingTimers p t)"] by simp
  have h: "stays_disposed t (snd (advanceTimersByTime p ms t))" if "disposed t"
    using advanceTimersByTime_disposed [OF that, of p ms "fst (advanceTimersByTime p ms t)"
        "snd (advanceTimersByTime p ms t)"] by simp
  have i: "stays_disposed t (snd (advanceTimersToNextTimer p steps t))" if "disposed t"
    using advanceTimersToNextTimer_disposed [OF that, of p steps
        "fst (advanceTimersToNextTimer p steps t)" "snd (advanceTimersToNextTimer p steps t)"]
    by simp
  from a b c d e f g h i show ?thesis by blast
qed

theorem dispose_effect_witness:
  "disposed (dispose (snd (fakeNextTick 0 (fresh None)))) \<and>
   fakeSetTimeout 1 (JNumber (Finite 10)) (dispose (snd (fakeNextTick 0 (fresh None))))
     = (Inr None, dispose (snd (fakeNextTick 0 (fresh None)))) \<and>
   fakeNextTick 1 (dispose (snd (fakeNextTick 0 (fresh None))))
     = (None, dispose (snd (fakeNextTick 0 (fresh None)))) \<and>
   stays_disposed (dispose (snd (fakeNextTick 0 (fresh None))))
     (snd (runAllTicks reticking (dispose (snd (fakeNextTick 0 (fresh None))))))"
  using dispose_effect [where s = "snd (fakeNextTick 0 (fresh None))"
      and t = "dispose (snd (fakeNextTick 0 (fresh None)))" and cb = 1
      and delay = "JNumber (Finite 10)" and p = reticking]
  by blast

end
